theory Spec2Isabelle
  imports Main "HOL-Library.Char_ord" "HOL-Library.List_Lexorder" "HOL-Library.Log_Nat"
begin

section \<open>Data model\<close>

text \<open>
  The entities of the quiz service, as the question service reads them from the store:
  a quiz owns questions, a question owns options, and \<open>findMany\<close> with
  \<open>include: { options: true }\<close> returns each question with its options nested.
\<close>

datatype QuestionType = SINGLE_CHOICE | MULTIPLE_CHOICE | TEXT

record opt =
  opt_id :: string
  opt_text :: string
  isCorrect :: bool

record question =
  q_id :: string
  q_text :: string
  q_type :: QuestionType
  q_quizId :: string
  options :: "opt list"

record quiz =
  quiz_id :: string
  title :: string

record db =
  quizzes :: "quiz list"
  questions :: "question list"

text \<open>
  A submitted answer, as \<open>submitAnswersSchema\<close> types it: both payload fields are
  optional.
\<close>

record answer =
  questionId :: string
  selectedOptionIds :: "string list option"
  textAnswer :: "string option"

record SubmitAnswersInput =
  answers :: "answer list"

text \<open>The field \<open>correctAnswer?: string | string[]\<close> of a per-answer result.\<close>

datatype correctAnswer_t = Str string | StrArray "string list"

record result =
  r_questionId :: string
  r_isCorrect :: bool
  r_correctAnswer :: correctAnswer_t

record score_t =
  score :: nat
  total_n :: nat
  percentage :: int
  results :: "result list"

text \<open>\<open>AppError(message, statusCode)\<close>, and the two status codes the service uses.\<close>

datatype AppError = AppError string nat

definition NOT_FOUND :: nat where
  "NOT_FOUND = 404"

definition BAD_REQUEST :: nat where
  "BAD_REQUEST = 400"

section \<open>JavaScript built-ins used by the scoring loop\<close>

text \<open>
  A JavaScript string is modelled by a \<^typ>\<open>string\<close> whose characters are its code
  units below 256 (the Latin-1 range). On that range \<open>trim\<close> strips the white space and
  line terminators TAB, LF, VT, FF, CR, SPACE and NBSP, and \<open>toLowerCase\<close> maps
  A-Z and the capital letters U+00C0..U+00DE (without the multiplication sign U+00D7) to
  the letter 32 code points above.
\<close>

definition isWhiteSpace :: "char \<Rightarrow> bool" where
  "isWhiteSpace c = ((of_char c :: nat) \<in> {9, 10, 11, 12, 13, 32, 160})"

definition trim :: "string \<Rightarrow> string" where
  "trim s = rev (dropWhile isWhiteSpace (rev (dropWhile isWhiteSpace s)))"

definition lowerChar :: "char \<Rightarrow> char" where
  "lowerChar c =
     (let n = (of_char c :: nat)
      in if (65 \<le> n \<and> n \<le> 90) \<or> (192 \<le> n \<and> n \<le> 222 \<and> n \<noteq> 215)
         then char_of (n + 32) else c)"

definition toLowerCase :: "string \<Rightarrow> string" where
  "toLowerCase s = map lowerChar s"

text \<open>
  \<open>new Set(xs)\<close>: the elements of \<open>xs\<close> in order of first insertion, each once;
  \<open>size\<close> is the length of that list and \<open>has\<close> is membership.
\<close>

definition Set_new :: "'a list \<Rightarrow> 'a list" where
  "Set_new xs = foldl (\<lambda>s x. if x \<in> set s then s else s @ [x]) [] xs"

text \<open>\<open>new Map(entries)\<close>: a later entry replaces an earlier one with the same key.\<close>

definition Map_new :: "('k \<times> 'v) list \<Rightarrow> ('k \<rightharpoonup> 'v)" where
  "Map_new es = foldl (\<lambda>m (k, v). m(k \<mapsto> v)) Map.empty es"

subsection \<open>Numbers\<close>

text \<open>
  A JavaScript Number is an IEEE 754 double. Its value is modelled by a rational, and
  every arithmetic operation returns the exact result rounded to the nearest double, ties
  to the even significand. \<open>binade x\<close> is the exponent \<open>e\<close> with
  \<open>2\<^sup>e \<le> x < 2\<^sup>e\<^sup>+\<^sup>1\<close>; a double in that binade is a multiple of
  \<open>2\<^sup>e\<^sup>-\<^sup>5\<^sup>2\<close>. Overflow and subnormal numbers are not modelled: the operands here
  are a count of answers and a positive count of questions, both array lengths.
\<close>

definition round_half_even :: "rat \<Rightarrow> int" where
  "round_half_even y =
     (let f = \<lfloor>y\<rfloor>; r = y - of_int f
      in if r < 1 / 2 then f else if 1 / 2 < r then f + 1
         else if even f then f else f + 1)"

definition binade :: "rat \<Rightarrow> int" where
  "binade x =
     (let (p, q) = quotient_of x; e0 = bitlen p - bitlen q
      in if 2 powi e0 \<le> x then e0 else e0 - 1)"

definition fl :: "rat \<Rightarrow> rat" where
  "fl x =
     (if x = 0 then 0
      else let u = 2 powi (binade \<bar>x\<bar> - 52)
           in sgn x * of_int (round_half_even (\<bar>x\<bar> / u)) * u)"

text \<open>\<open>Math.round\<close>: the nearest integer, a tie going towards plus infinity.\<close>

definition Math_round :: "rat \<Rightarrow> int" where
  "Math_round x = \<lfloor>x + 1 / 2\<rfloor>"

section \<open>The question service\<close>

subsection \<open>Store queries\<close>

text \<open>\<open>prisma.quiz.findUnique({ where: { id: quizId } })\<close>\<close>

definition quiz_findUnique :: "db \<Rightarrow> string \<Rightarrow> quiz option" where
  "quiz_findUnique d quizId = find (\<lambda>z. quiz_id z = quizId) (quizzes d)"

text \<open>\<open>prisma.question.findMany({ where: { quizId }, include: { options: true } })\<close>\<close>

definition question_findMany :: "db \<Rightarrow> string \<Rightarrow> question list" where
  "question_findMany d quizId = filter (\<lambda>q. q_quizId q = quizId) (questions d)"

subsection \<open>submitQuizAnswers\<close>

text \<open>\<open>answer.selectedOptionIds || []\<close>: an array, even an empty one, is truthy.\<close>

definition selectedIds_of :: "answer \<Rightarrow> string list" where
  "selectedIds_of answer = (case selectedOptionIds answer of None \<Rightarrow> [] | Some ids \<Rightarrow> ids)"

text \<open>\<open>question.options.filter(opt => opt.isCorrect).map(opt => opt.id)\<close>\<close>

definition correctOptionIds_of :: "question \<Rightarrow> string list" where
  "correctOptionIds_of question = map opt_id (filter isCorrect (options question))"

text \<open>
  The body of the scoring loop after the question has been resolved: the verdict and the
  reported correct answer of one submitted answer. \<open>correctOption && answer.textAnswer\<close>
  holds when the option was found and the text is present and not the empty string.
\<close>

definition scoreAnswer :: "question \<Rightarrow> answer \<Rightarrow> bool \<times> correctAnswer_t" where
  "scoreAnswer question answer =
     (if q_type question = TEXT then
        (case find isCorrect (options question) of
           None \<Rightarrow> (False, Str '''')
         | Some correctOption \<Rightarrow>
             (case textAnswer answer of
                None \<Rightarrow> (False, Str '''')
              | Some t \<Rightarrow>
                  if t = '''' then (False, Str '''')
                  else (toLowerCase (trim t) = toLowerCase (trim (opt_text correctOption)),
                        Str (opt_text correctOption))))
      else
        (let correctOptionIds = correctOptionIds_of question;
             selectedIds = selectedIds_of answer
         in if q_type question = SINGLE_CHOICE then
              (length selectedIds = 1 \<and> length correctOptionIds = 1 \<and>
                 selectedIds ! 0 = correctOptionIds ! 0,
               Str (case find isCorrect (options question) of
                      None \<Rightarrow> ''''
                    | Some c \<Rightarrow> if opt_text c = '''' then '''' else opt_text c))
            else if q_type question = MULTIPLE_CHOICE then
              (let selectedSet = Set_new selectedIds;
                   correctSet = Set_new correctOptionIds
               in (length selectedSet = length correctSet \<and>
                     list_all (\<lambda>i. i \<in> set correctSet) selectedSet,
                   StrArray (map opt_text (filter isCorrect (options question)))))
            else (False, Str '''')))"

text \<open>
  The loop over \<open>answersData.answers\<close>, with its two accumulators. An answer whose
  question is not in the map throws, and the accumulators are lost with it.
\<close>

fun scoreLoop ::
  "(string \<rightharpoonup> question) \<Rightarrow> answer list \<Rightarrow> nat \<Rightarrow> result list \<Rightarrow> AppError + (nat \<times> result list)"
where
  "scoreLoop questionMap [] correctAnswers res = Inr (correctAnswers, res)"
| "scoreLoop questionMap (answer # rest) correctAnswers res =
     (case questionMap (questionId answer) of
        None \<Rightarrow>
          Inl (AppError (''Question with ID '' @ questionId answer @ '' not found in this quiz'')
                 BAD_REQUEST)
      | Some question \<Rightarrow>
          (let (correct, correctAnswer) = scoreAnswer question answer
           in scoreLoop questionMap rest
                (if correct then correctAnswers + 1 else correctAnswers)
                (res @ [\<lparr>r_questionId = questionId answer, r_isCorrect = correct,
                          r_correctAnswer = correctAnswer\<rparr>])))"

text \<open>
  \<open>Math.round((correctAnswers / questions.length) * 100)\<close>: a division and a
  multiplication of doubles, then the rounding.
\<close>

definition percentage_of :: "nat \<Rightarrow> nat \<Rightarrow> int" where
  "percentage_of correctAnswers n = Math_round (fl (fl (of_nat correctAnswers / of_nat n) * 100))"

definition questionMap_of :: "question list \<Rightarrow> (string \<rightharpoonup> question)" where
  "questionMap_of qs = Map_new (map (\<lambda>q. (q_id q, q)) qs)"

definition submitQuizAnswers :: "db \<Rightarrow> string \<Rightarrow> SubmitAnswersInput \<Rightarrow> AppError + score_t" where
  "submitQuizAnswers d quizId answersData =
     (case quiz_findUnique d quizId of
        None \<Rightarrow> Inl (AppError ''Quiz not found'' NOT_FOUND)
      | Some qz \<Rightarrow>
          (let qs = question_findMany d quizId
           in if length qs = 0 then Inl (AppError ''No questions found for this quiz'' BAD_REQUEST)
              else
                (case scoreLoop (questionMap_of qs) (answers answersData) 0 [] of
                   Inl e \<Rightarrow> Inl e
                 | Inr (correctAnswers, res) \<Rightarrow>
                     Inr \<lparr>score = correctAnswers, total_n = length qs,
                          percentage = percentage_of correctAnswers (length qs),
                          results = res\<rparr>)))"

text \<open>
  What the loop has pushed for an answer: its question is in the map and the result holds
  the verdict and the correct answer computed for that question.
\<close>

definition scored :: "(string \<rightharpoonup> question) \<Rightarrow> answer \<Rightarrow> result \<Rightarrow> bool" where
  "scored qm a r =
     (\<exists>q. qm (questionId a) = Some q \<and> r_questionId r = questionId a \<and>
          r_isCorrect r = fst (scoreAnswer q a) \<and> r_correctAnswer r = snd (scoreAnswer q a))"

subsection \<open>getQuizQuestions\<close>

text \<open>
  The learner view is what \<open>findMany\<close> returns under a \<open>select\<close>: objects that
  hold the selected fields and no other. An object is a list of named fields.
\<close>

datatype jvalue =
  JString string
| JBoolean bool
| JArray "jvalue list"
| JObject "(string \<times> jvalue) list"

definition typeName :: "QuestionType \<Rightarrow> string" where
  "typeName t =
     (case t of SINGLE_CHOICE \<Rightarrow> ''SINGLE_CHOICE''
      | MULTIPLE_CHOICE \<Rightarrow> ''MULTIPLE_CHOICE''
      | TEXT \<Rightarrow> ''TEXT'')"

text \<open>
  Modelled from the spec: the columns of the Option and Question tables (the Prisma schema
  is not among the sources). An Option has an identifier, the owning question's reference,
  a text and the flag \<open>isCorrect\<close>; a Question has an identifier, the owning quiz's
  reference, a text and a type.
\<close>

definition option_row :: "string \<Rightarrow> opt \<Rightarrow> (string \<times> jvalue) list" where
  "option_row owner c =
     [(''id'', JString (opt_id c)), (''text'', JString (opt_text c)),
      (''isCorrect'', JBoolean (isCorrect c)), (''questionId'', JString owner)]"

definition question_row :: "question \<Rightarrow> (string \<times> jvalue) list" where
  "question_row q =
     [(''id'', JString (q_id q)), (''text'', JString (q_text q)),
      (''type'', JString (typeName (q_type q))), (''quizId'', JString (q_quizId q))]"

text \<open>\<open>select: { k: true, ... }\<close> keeps the fields named and drops the others.\<close>

definition select :: "string list \<Rightarrow> (string \<times> jvalue) list \<Rightarrow> (string \<times> jvalue) list" where
  "select ks row = filter (\<lambda>(k, v). k \<in> set ks) row"

definition learnerOption :: "string \<Rightarrow> opt \<Rightarrow> jvalue" where
  "learnerOption owner c = JObject (select [''id'', ''text''] (option_row owner c))"

definition learnerQuestion :: "question \<Rightarrow> jvalue" where
  "learnerQuestion q =
     JObject (select [''id'', ''text'', ''type''] (question_row q) @
              [(''options'', JArray (map (learnerOption (q_id q)) (options q)))])"

definition getQuizQuestions :: "db \<Rightarrow> string \<Rightarrow> AppError + jvalue list" where
  "getQuizQuestions d quizId =
     (case quiz_findUnique d quizId of
        None \<Rightarrow> Inl (AppError ''Quiz not found'' NOT_FOUND)
      | Some qz \<Rightarrow> Inr (map learnerQuestion (sort_key q_id (question_findMany d quizId))))"

text \<open>The field names of an object, the value of a field, the elements of an array.\<close>

definition fieldNames :: "jvalue \<Rightarrow> string list" where
  "fieldNames v = (case v of JObject fs \<Rightarrow> map fst fs | _ \<Rightarrow> [])"

definition field :: "string \<Rightarrow> jvalue \<Rightarrow> jvalue option" where
  "field k v = (case v of JObject fs \<Rightarrow> map_of fs k | _ \<Rightarrow> None)"

definition elements :: "jvalue option \<Rightarrow> jvalue list" where
  "elements v = (case v of Some (JArray vs) \<Rightarrow> vs | _ \<Rightarrow> [])"

subsection \<open>The validation of a submission\<close>

text \<open>
  The refinement of \<open>submitAnswersSchema\<close>: each answer carries selected option
  identifiers or a text, not both. The schema is applied before the service; the format check
  of the identifiers (\<open>uuid\<close>) belongs to the validation library and is left out.
\<close>

definition truthy :: "string option \<Rightarrow> bool" where
  "truthy s = (case s of None \<Rightarrow> False | Some t \<Rightarrow> t \<noteq> '''')"

definition hasSelectedIds :: "answer \<Rightarrow> bool" where
  "hasSelectedIds a =
     (case selectedOptionIds a of
        None \<Rightarrow> False
      | Some ids \<Rightarrow> 0 < length ids \<and> \<not> truthy (textAnswer a))"

definition hasText :: "answer \<Rightarrow> bool" where
  "hasText a =
     (case textAnswer a of
        None \<Rightarrow> False
      | Some t \<Rightarrow>
          t \<noteq> '''' \<and> 0 < length (trim t) \<and>
          (case selectedOptionIds a of None \<Rightarrow> True | Some ids \<Rightarrow> length ids = 0))"

definition submitAnswersSchema :: "SubmitAnswersInput \<Rightarrow> bool" where
  "submitAnswersSchema inp =
     (1 \<le> length (answers inp) \<and>
      list_all (\<lambda>a. case textAnswer a of None \<Rightarrow> True | Some t \<Rightarrow> length t \<le> 300)
        (answers inp) \<and>
      list_all (\<lambda>a. hasSelectedIds a \<or> hasText a) (answers inp))"

section \<open>The specification's reference notions\<close>

text \<open>
  The percentage as the specification words it: \<open>100 \<times> score / total\<close> in exact
  arithmetic, rounded to the nearest integer, a half going away from zero.
\<close>

definition round_half_away :: "rat \<Rightarrow> int" where
  "round_half_away x = (if 0 \<le> x then \<lfloor>x + 1 / 2\<rfloor> else - \<lfloor>- x + 1 / 2\<rfloor>)"

definition spec_percentage :: "nat \<Rightarrow> nat \<Rightarrow> int" where
  "spec_percentage s t = round_half_away (100 * of_nat s / of_nat t)"

text \<open>
  The invariant of a stored question by type: exactly one correct option for a single
  choice, at least one for a multiple choice, a correct-answer option for a text.
\<close>

definition correctCount :: "question \<Rightarrow> nat" where
  "correctCount q = length (filter isCorrect (options q))"

definition typeInvariant :: "question \<Rightarrow> bool" where
  "typeInvariant q =
     (case q_type q of
        SINGLE_CHOICE \<Rightarrow> correctCount q = 1
      | MULTIPLE_CHOICE \<Rightarrow> 1 \<le> correctCount q
      | TEXT \<Rightarrow> 1 \<le> correctCount q)"

section \<open>Example data\<close>

text \<open>
  The quiz of the test suite: a single-choice, a multiple-choice and a text question.
\<close>

definition quizA :: string where
  "quizA = ''c0000000-0000-4000-8000-000000000000''"

definition qSingle :: question where
  "qSingle =
     \<lparr>q_id = ''a1000000-0000-4000-8000-000000000000'', q_text = ''What is 2 + 2?'',
      q_type = SINGLE_CHOICE, q_quizId = quizA,
      options =
        [\<lparr>opt_id = ''b1000000-0000-4000-8000-000000000000'', opt_text = ''3'', isCorrect = False\<rparr>,
         \<lparr>opt_id = ''b2000000-0000-4000-8000-000000000000'', opt_text = ''4'', isCorrect = True\<rparr>,
         \<lparr>opt_id = ''b3000000-0000-4000-8000-000000000000'', opt_text = ''5'', isCorrect = False\<rparr>]\<rparr>"

definition qMultiple :: question where
  "qMultiple =
     \<lparr>q_id = ''a2000000-0000-4000-8000-000000000000'',
      q_text = ''Which are programming languages?'',
      q_type = MULTIPLE_CHOICE, q_quizId = quizA,
      options =
        [\<lparr>opt_id = ''b4000000-0000-4000-8000-000000000000'', opt_text = ''JavaScript'',
          isCorrect = True\<rparr>,
         \<lparr>opt_id = ''b5000000-0000-4000-8000-000000000000'', opt_text = ''Python'',
          isCorrect = True\<rparr>,
         \<lparr>opt_id = ''b6000000-0000-4000-8000-000000000000'', opt_text = ''HTML'',
          isCorrect = False\<rparr>,
         \<lparr>opt_id = ''b7000000-0000-4000-8000-000000000000'', opt_text = ''TypeScript'',
          isCorrect = True\<rparr>]\<rparr>"

definition qText :: question where
  "qText =
     \<lparr>q_id = ''a3000000-0000-4000-8000-000000000000'',
      q_text = ''What is the capital of France?'',
      q_type = TEXT, q_quizId = quizA,
      options =
        [\<lparr>opt_id = ''b8000000-0000-4000-8000-000000000000'', opt_text = ''Paris'',
          isCorrect = True\<rparr>]\<rparr>"

definition dbA :: db where
  "dbA = \<lparr>quizzes = [\<lparr>quiz_id = quizA, title = ''Test Quiz''\<rparr>],
          questions = [qSingle, qMultiple, qText]\<rparr>"

definition aSingle :: answer where
  "aSingle =
     \<lparr>questionId = ''a1000000-0000-4000-8000-000000000000'',
      selectedOptionIds = Some [''b2000000-0000-4000-8000-000000000000''],
      textAnswer = None\<rparr>"

text \<open>The three correct options in another order, one of them twice.\<close>

definition aMultiple :: answer where
  "aMultiple =
     \<lparr>questionId = ''a2000000-0000-4000-8000-000000000000'',
      selectedOptionIds =
        Some [''b7000000-0000-4000-8000-000000000000'', ''b4000000-0000-4000-8000-000000000000'',
              ''b5000000-0000-4000-8000-000000000000'', ''b4000000-0000-4000-8000-000000000000''],
      textAnswer = None\<rparr>"

definition aText :: answer where
  "aText =
     \<lparr>questionId = ''a3000000-0000-4000-8000-000000000000'',
      selectedOptionIds = None, textAnswer = Some '' PARIS ''\<rparr>"

text \<open>An answer to a question of no quiz.\<close>

definition aForeign :: answer where
  "aForeign =
     \<lparr>questionId = ''f0000000-0000-4000-8000-000000000000'',
      selectedOptionIds = Some [''b2000000-0000-4000-8000-000000000000''],
      textAnswer = None\<rparr>"

text \<open>Answers of the other kind: an option for the text question, a text for the others.\<close>

definition aTextByOption :: answer where
  "aTextByOption =
     \<lparr>questionId = ''a3000000-0000-4000-8000-000000000000'',
      selectedOptionIds = Some [''b8000000-0000-4000-8000-000000000000''],
      textAnswer = None\<rparr>"

definition aSingleByText :: answer where
  "aSingleByText =
     \<lparr>questionId = ''a1000000-0000-4000-8000-000000000000'',
      selectedOptionIds = None, textAnswer = Some ''4''\<rparr>"

definition inputAll :: SubmitAnswersInput where
  "inputAll = \<lparr>answers = [aSingle, aMultiple, aText]\<rparr>"

definition inputForeign :: SubmitAnswersInput where
  "inputForeign = \<lparr>answers = [aSingle, aForeign, aText]\<rparr>"

definition inputRepeated :: SubmitAnswersInput where
  "inputRepeated = \<lparr>answers = [aSingle, aSingle, aSingle, aSingle]\<rparr>"

definition inputOtherKind :: SubmitAnswersInput where
  "inputOtherKind = \<lparr>answers = [aTextByOption, aSingleByText]\<rparr>"

text \<open>
  A quiz whose stored questions break their invariants: a multiple-choice question with
  no correct option and a single-choice question with two.
\<close>

definition quizB :: string where
  "quizB = ''c1000000-0000-4000-8000-000000000000''"

definition qNoCorrect :: question where
  "qNoCorrect =
     \<lparr>q_id = ''a4000000-0000-4000-8000-000000000000'', q_text = ''Which are correct?'',
      q_type = MULTIPLE_CHOICE, q_quizId = quizB,
      options =
        [\<lparr>opt_id = ''b9000000-0000-4000-8000-000000000000'', opt_text = ''One'', isCorrect = False\<rparr>,
         \<lparr>opt_id = ''ba000000-0000-4000-8000-000000000000'', opt_text = ''Two'', isCorrect = False\<rparr>]\<rparr>"

definition qTwoCorrect :: question where
  "qTwoCorrect =
     \<lparr>q_id = ''a5000000-0000-4000-8000-000000000000'', q_text = ''Which one?'',
      q_type = SINGLE_CHOICE, q_quizId = quizB,
      options =
        [\<lparr>opt_id = ''bb000000-0000-4000-8000-000000000000'', opt_text = ''Left'', isCorrect = True\<rparr>,
         \<lparr>opt_id = ''bc000000-0000-4000-8000-000000000000'', opt_text = ''Right'', isCorrect = True\<rparr>]\<rparr>"

definition dbB :: db where
  "dbB = \<lparr>quizzes = [\<lparr>quiz_id = quizB, title = ''Stored before validation''\<rparr>],
          questions = [qNoCorrect, qTwoCorrect]\<rparr>"

definition aNoCorrectByText :: answer where
  "aNoCorrectByText =
     \<lparr>questionId = ''a4000000-0000-4000-8000-000000000000'',
      selectedOptionIds = None, textAnswer = Some ''One''\<rparr>"

definition aTwoCorrect :: answer where
  "aTwoCorrect =
     \<lparr>questionId = ''a5000000-0000-4000-8000-000000000000'',
      selectedOptionIds = Some [''bb000000-0000-4000-8000-000000000000''],
      textAnswer = None\<rparr>"

definition inputB :: SubmitAnswersInput where
  "inputB = \<lparr>answers = [aNoCorrectByText, aTwoCorrect]\<rparr>"

text \<open>
  A quiz of forty single-choice questions, and a submission that answers the first
  twenty-three of them correctly and leaves the others out.
\<close>

definition quizC :: string where
  "quizC = ''c2000000-0000-4000-8000-000000000000''"

definition uuid_of :: "char \<Rightarrow> nat \<Rightarrow> string" where
  "uuid_of c n =
     [c, ''0123456789'' ! (n div 10), ''0123456789'' ! (n mod 10)] @
     ''00000-0000-4000-8000-000000000000''"

definition qC :: "nat \<Rightarrow> question" where
  "qC n =
     \<lparr>q_id = uuid_of CHR ''a'' n, q_text = ''Yes or no?'',
      q_type = SINGLE_CHOICE, q_quizId = quizC,
      options =
        [\<lparr>opt_id = uuid_of CHR ''b'' n, opt_text = ''Yes'', isCorrect = True\<rparr>,
         \<lparr>opt_id = uuid_of CHR ''d'' n, opt_text = ''No'', isCorrect = False\<rparr>]\<rparr>"

definition aC :: "nat \<Rightarrow> answer" where
  "aC n =
     \<lparr>questionId = uuid_of CHR ''a'' n, selectedOptionIds = Some [uuid_of CHR ''b'' n],
      textAnswer = None\<rparr>"

definition dbC :: db where
  "dbC = \<lparr>quizzes = [\<lparr>quiz_id = quizC, title = ''Forty questions''\<rparr>],
          questions = map qC [10..<50]\<rparr>"

definition inputC :: SubmitAnswersInput where
  "inputC = \<lparr>answers = map aC [10..<33]\<rparr>"

text \<open>The results of the service on some of these submissions.\<close>

definition rSingle :: result where
  "rSingle =
     \<lparr>r_questionId = ''a1000000-0000-4000-8000-000000000000'', r_isCorrect = True,
      r_correctAnswer = Str ''4''\<rparr>"

definition scoreRepeated :: score_t where
  "scoreRepeated =
     \<lparr>score = 4, total_n = 3, percentage = 133,
      results = [rSingle, rSingle, rSingle, rSingle]\<rparr>"

definition scoreOtherKind :: score_t where
  "scoreOtherKind =
     \<lparr>score = 0, total_n = 3, percentage = 0,
      results =
        [\<lparr>r_questionId = ''a3000000-0000-4000-8000-000000000000'', r_isCorrect = False,
          r_correctAnswer = Str ''''\<rparr>,
         \<lparr>r_questionId = ''a1000000-0000-4000-8000-000000000000'', r_isCorrect = False,
          r_correctAnswer = Str ''4''\<rparr>]\<rparr>"

definition scoreB :: score_t where
  "scoreB =
     \<lparr>score = 1, total_n = 2, percentage = 50,
      results =
        [\<lparr>r_questionId = ''a4000000-0000-4000-8000-000000000000'', r_isCorrect = True,
          r_correctAnswer = StrArray []\<rparr>,
         \<lparr>r_questionId = ''a5000000-0000-4000-8000-000000000000'', r_isCorrect = False,
          r_correctAnswer = Str ''Left''\<rparr>]\<rparr>"

section \<open>Sets and maps of the scoring loop\<close>

lemma Set_new_foldl_set:
  "set (foldl (\<lambda>s x. if x \<in> set s then s else s @ [x]) acc xs) = set acc \<union> set xs"
  by (induction xs arbitrary: acc) auto

lemma Set_new_foldl_distinct:
  "distinct acc \<Longrightarrow> distinct (foldl (\<lambda>s x. if x \<in> set s then s else s @ [x]) acc xs)"
  by (induction xs arbitrary: acc) auto

lemma set_Set_new: "set (Set_new xs) = set xs"
  by (simp add: Set_new_def Set_new_foldl_set)

lemma distinct_Set_new: "distinct (Set_new xs)"
  by (simp add: Set_new_def Set_new_foldl_distinct)

lemma length_Set_new: "length (Set_new xs) = card (set xs)"
  using distinct_card [OF distinct_Set_new, of xs] by (simp add: set_Set_new)

text \<open>Equal sizes and one inclusion: the comparison of the two sets is their equality.\<close>

lemma Set_compare_iff:
  "(length (Set_new xs) = length (Set_new ys) \<and>
      list_all (\<lambda>i. i \<in> set (Set_new ys)) (Set_new xs))
     \<longleftrightarrow> set xs = set ys"
proof -
  have "(card (set xs) = card (set ys) \<and> set xs \<subseteq> set ys) \<longleftrightarrow> set xs = set ys"
    using card_subset_eq [of "set ys" "set xs"] by auto
  then show ?thesis
    by (auto simp: length_Set_new set_Set_new list_all_iff)
qed

lemma Map_new_foldl:
  "foldl (\<lambda>m (k, v). m(k \<mapsto> v)) m es = m ++ map_of (rev es)"
  by (induction es arbitrary: m) (auto simp: map_add_def fun_eq_iff split: option.splits)

lemma Map_new_map_of: "Map_new es = map_of (rev es)"
  by (simp add: Map_new_def Map_new_foldl)

lemma Map_new_distinct:
  assumes "distinct (map fst es)" and "(k, v) \<in> set es"
  shows "Map_new es k = Some v"
proof -
  from assms have "distinct (map fst (rev es))" and "(k, v) \<in> set (rev es)"
    by (simp_all add: rev_map [symmetric])
  then show ?thesis
    unfolding Map_new_map_of by (rule map_of_is_SomeI)
qed

lemma questionMap_of_Some:
  "questionMap_of qs k = Some q \<Longrightarrow> q \<in> set qs \<and> q_id q = k"
  by (auto simp: questionMap_of_def Map_new_map_of dest!: map_of_SomeD)

lemma questionMap_of_None:
  "questionMap_of qs k = None \<longleftrightarrow> k \<notin> q_id ` set qs"
  by (simp add: questionMap_of_def Map_new_map_of map_of_eq_None_iff image_image)

lemma questionMap_of_distinct:
  assumes "distinct (map q_id qs)" and "q \<in> set qs"
  shows "questionMap_of qs (q_id q) = Some q"
  unfolding questionMap_of_def
proof (rule Map_new_distinct)
  from assms(1) show "distinct (map fst (map (\<lambda>q. (q_id q, q)) qs))"
    by (simp add: comp_def)
  from assms(2) show "(q_id q, q) \<in> set (map (\<lambda>q. (q_id q, q)) qs)"
    by auto
qed

section \<open>The model of doubles\<close>

lemma pow2_le_of_int:
  fixes p :: int
  assumes "2 ^ nat (b - 1) \<le> p" and "1 \<le> b"
  shows "(2::rat) powi (b - 1) \<le> of_int p"
proof -
  from assms(2) have "(2::rat) powi (b - 1) = of_int (2 ^ nat (b - 1))"
    by (simp add: power_int_nonneg_exp)
  also from assms(1) have "\<dots> \<le> of_int p"
    by (simp only: of_int_le_iff)
  finally show ?thesis .
qed

lemma of_int_less_pow2:
  fixes p :: int
  assumes "p < 2 ^ nat b" and "1 \<le> b"
  shows "of_int p < (2::rat) powi b"
proof -
  from assms(1) have "(of_int p :: rat) < of_int (2 ^ nat b)"
    by (simp only: of_int_less_iff)
  also from assms(2) have "\<dots> = 2 powi b"
    by (simp add: power_int_nonneg_exp)
  finally show ?thesis .
qed

text \<open>The quotient of two positive integers lies within a factor two of the power of two
  given by the difference of their bit lengths.\<close>

lemma pow2_ratio:
  fixes p q :: int
  assumes "0 < p" and "0 < q"
  shows "(2::rat) powi (bitlen p - bitlen q - 1) < of_int p / of_int q"
    and "of_int p / of_int q < (2::rat) powi (bitlen p - bitlen q + 1)"
proof -
  have bp: "1 \<le> bitlen p" and bq: "1 \<le> bitlen q"
    using assms bitlen_eq_zero_iff [of p] bitlen_eq_zero_iff [of q]
      bitlen_nonneg [of p] bitlen_nonneg [of q]
    by linarith+
  from bitlen_bounds [OF assms(1)] bp
  have P1: "(2::rat) powi (bitlen p - 1) \<le> of_int p" and P2: "of_int p < (2::rat) powi bitlen p"
    by (simp_all add: pow2_le_of_int of_int_less_pow2)
  from bitlen_bounds [OF assms(2)] bq
  have Q1: "(2::rat) powi (bitlen q - 1) \<le> of_int q" and Q2: "of_int q < (2::rat) powi bitlen q"
    by (simp_all add: pow2_le_of_int of_int_less_pow2)
  have "(2::rat) powi (bitlen p - bitlen q - 1) = 2 powi (bitlen p - 1) / 2 powi bitlen q"
    by (simp add: power_int_diff)
  also from P1 Q2 assms(2) have "\<dots> < of_int p / of_int q"
    by (intro frac_less2) simp_all
  finally show "(2::rat) powi (bitlen p - bitlen q - 1) < of_int p / of_int q" .
  from P2 Q1 assms(1) have "of_int p / of_int q < (2::rat) powi bitlen p / 2 powi (bitlen q - 1)"
    by (intro frac_less) simp_all
  also have "\<dots> = 2 powi (bitlen p - (bitlen q - 1))"
    by (rule power_int_diff [symmetric]) simp
  finally show "of_int p / of_int q < (2::rat) powi (bitlen p - bitlen q + 1)"
    by (simp add: algebra_simps)
qed

text \<open>\<open>binade x\<close> is the exponent of the power of two at or below \<open>x\<close>.\<close>

lemma binade_bounds:
  assumes "0 < x"
  shows "2 powi binade x \<le> x" and "x < 2 powi (binade x + 1)"
proof -
  obtain p q where pq: "quotient_of x = (p, q)"
    by (cases "quotient_of x")
  then have q: "0 < q" and x: "x = of_int p / of_int q"
    by (simp_all add: quotient_of_denom_pos quotient_of_div)
  with assms have p: "0 < p"
    by (simp add: zero_less_divide_iff)
  define e0 where "e0 = bitlen p - bitlen q"
  from pow2_ratio [OF p q] x have lo: "2 powi (e0 - 1) < x" and hi: "x < 2 powi (e0 + 1)"
    by (simp_all add: e0_def)
  have b: "binade x = (if 2 powi e0 \<le> x then e0 else e0 - 1)"
    by (simp add: binade_def pq e0_def Let_def)
  from b lo show "2 powi binade x \<le> x"
    by (simp split: if_splits)
  from b hi show "x < 2 powi (binade x + 1)"
    by (simp split: if_splits)
qed

lemma int_near_bounds:
  fixes m :: int and y :: rat
  assumes "\<bar>of_int m - y\<bar> \<le> 1 / 2" and "2 ^ 52 \<le> y" and "y < 2 ^ 53"
  shows "2 ^ 52 \<le> m \<and> m \<le> 2 ^ 53"
proof -
  from assms have "(2 ^ 52 - 1 :: rat) < of_int m" and "(of_int m :: rat) < 2 ^ 53 + 1"
    by linarith+
  then have "(of_int (2 ^ 52 - 1) :: rat) < of_int m" and "(of_int m :: rat) < of_int (2 ^ 53 + 1)"
    by simp_all
  then have "2 ^ 52 - 1 < m" and "m < 2 ^ 53 + 1"
    by (simp_all only: of_int_less_iff)
  then show ?thesis by simp
qed

lemma round_half_even_near: "\<bar>of_int (round_half_even y) - y\<bar> \<le> 1 / 2"
proof -
  define r where "r = y - of_int \<lfloor>y\<rfloor>"
  have r: "0 \<le> r" "r < 1"
    unfolding r_def by linarith+
  consider "r < 1 / 2" | "1 / 2 < r" | "r = 1 / 2" by linarith
  then show ?thesis
  proof cases
    case 1
    then have "round_half_even y = \<lfloor>y\<rfloor>"
      by (simp add: round_half_even_def Let_def r_def)
    then have "of_int (round_half_even y) - y = - r"
      by (simp add: r_def)
    with 1 r show ?thesis
      by linarith
  next
    case 2
    then have "round_half_even y = \<lfloor>y\<rfloor> + 1"
      by (simp add: round_half_even_def Let_def r_def)
    then have "of_int (round_half_even y) - y = 1 - r"
      by (simp add: r_def)
    with 2 r show ?thesis
      by linarith
  next
    case 3
    then have "round_half_even y = \<lfloor>y\<rfloor> \<or> round_half_even y = \<lfloor>y\<rfloor> + 1"
      by (simp add: round_half_even_def Let_def r_def)
    then have "of_int (round_half_even y) - y = - r \<or> of_int (round_half_even y) - y = 1 - r"
      by (auto simp: r_def)
    with 3 show ?thesis
      by auto
  qed
qed

text \<open>
  The rounding is to a nearest double: the result is an integer multiple of the spacing
  of the binade, has a significand of at most 53 bits, and is no farther from \<open>x\<close> than
  half the spacing.
\<close>

lemma fl_nearest:
  assumes "0 < x"
  defines "u \<equiv> 2 powi (binade x - 52)"
  shows "\<exists>m. fl x = of_int m * u \<and> 2 ^ 52 \<le> m \<and> m \<le> 2 ^ 53 \<and> \<bar>fl x - x\<bar> \<le> u / 2"
proof -
  have u: "0 < u" by (simp add: u_def)
  define m where "m = round_half_even (x / u)"
  from assms(1) have fl: "fl x = of_int m * u"
    by (simp add: fl_def m_def u_def Let_def)
  have near: "\<bar>of_int m - x / u\<bar> \<le> 1 / 2"
    unfolding m_def by (rule round_half_even_near)
  from u have "(of_int m - x / u) * u = fl x - x"
    by (simp add: fl field_simps)
  then have "\<bar>fl x - x\<bar> = \<bar>(of_int m - x / u) * u\<bar>"
    by simp
  also from u have "\<dots> = \<bar>of_int m - x / u\<bar> * u"
    by (simp add: abs_mult)
  also from near u have "\<dots> \<le> 1 / 2 * u"
    by (intro mult_right_mono) simp_all
  finally have err: "\<bar>fl x - x\<bar> \<le> u / 2" by simp
  have "x / u = x * 2 powi (52 - binade x)"
    by (simp add: u_def power_int_diff field_simps)
  have lo: "2 ^ 52 \<le> x / u"
  proof -
    have "(2::rat) ^ 52 * u = 2 powi binade x"
      by (simp add: u_def power_int_diff)
    also have "\<dots> \<le> x" by (rule binade_bounds(1) [OF assms(1)])
    finally show ?thesis using u by (simp add: pos_le_divide_eq)
  qed
  have hi: "x / u < 2 ^ 53"
  proof -
    have "x < 2 powi (binade x + 1)" by (rule binade_bounds(2) [OF assms(1)])
    also have "\<dots> = (2::rat) ^ 53 * u"
      by (simp add: u_def power_int_diff power_int_add)
    finally show ?thesis using u by (simp add: pos_divide_less_eq)
  qed
  from near lo hi have "2 ^ 52 \<le> m \<and> m \<le> 2 ^ 53"
    by (rule int_near_bounds)
  with fl err show ?thesis by blast
qed

lemma round_half_even_tie:
  assumes "y - of_int \<lfloor>y\<rfloor> = 1 / 2"
  shows "even (round_half_even y)"
  using assms by (simp add: round_half_even_def Let_def)

section \<open>The loop and the whole call\<close>

text \<open>When every answer resolves the loop ends with one result for each answer.\<close>

lemma scoreLoop_resolved:
  "\<forall>a \<in> set as. qm (questionId a) \<noteq> None \<Longrightarrow>
   \<exists>new. scoreLoop qm as c rs = Inr (c + length (filter r_isCorrect new), rs @ new) \<and>
         list_all2 (scored qm) as new"
proof (induction as arbitrary: c rs)
  case Nil
  then show ?case by simp
next
  case (Cons a as)
  from Cons.prems obtain q where q: "qm (questionId a) = Some q" by auto
  define r where "r = \<lparr>r_questionId = questionId a, r_isCorrect = fst (scoreAnswer q a),
                        r_correctAnswer = snd (scoreAnswer q a)\<rparr>"
  define c' where "c' = (if fst (scoreAnswer q a) then c + 1 else c)"
  from Cons.prems have "\<forall>a \<in> set as. qm (questionId a) \<noteq> None" by simp
  from Cons.IH [OF this, of c' "rs @ [r]"] obtain new where
    new: "scoreLoop qm as c' (rs @ [r]) = Inr (c' + length (filter r_isCorrect new), (rs @ [r]) @ new)"
         "list_all2 (scored qm) as new"
    by blast
  have step: "scoreLoop qm (a # as) c rs = scoreLoop qm as c' (rs @ [r])"
    by (simp add: q r_def c'_def split: prod.splits)
  have "scored qm a r"
    by (simp add: scored_def q r_def)
  with new step show ?case
    by (intro exI [of _ "r # new"]) (simp add: c'_def r_def)
qed

text \<open>An answer that does not resolve ends the loop with the error of the first such.\<close>

lemma scoreLoop_unresolved:
  "\<exists>a \<in> set as. qm (questionId a) = None \<Longrightarrow>
   \<exists>a \<in> set as. qm (questionId a) = None \<and>
     scoreLoop qm as c rs =
       Inl (AppError (''Question with ID '' @ questionId a @ '' not found in this quiz'') BAD_REQUEST)"
proof (induction as arbitrary: c rs)
  case Nil
  then show ?case by simp
next
  case (Cons a as)
  show ?case
  proof (cases "qm (questionId a)")
    case None
    then show ?thesis by simp
  next
    case (Some q)
    with Cons.prems have "\<exists>a \<in> set as. qm (questionId a) = None" by auto
    from Cons.IH [OF this] Some show ?thesis
      by (simp split: prod.splits)
  qed
qed

text \<open>The error names the first answer that does not resolve.\<close>

lemma scoreLoop_first_unresolved:
  assumes "\<forall>b \<in> set pre. qm (questionId b) \<noteq> None" and "qm (questionId a) = None"
  shows "scoreLoop qm (pre @ a # post) c rs =
           Inl (AppError (''Question with ID '' @ questionId a @ '' not found in this quiz'')
                  BAD_REQUEST)"
  using assms
proof (induction pre arbitrary: c rs)
  case Nil
  then show ?case by simp
next
  case (Cons b pre)
  then obtain q where "qm (questionId b) = Some q" by auto
  with Cons show ?case
    by (simp split: prod.splits)
qed

lemma submit_resolved:
  assumes quiz: "quiz_findUnique d quizId = Some qz"
    and some: "question_findMany d quizId \<noteq> []"
    and res: "\<forall>a \<in> set (answers inp).
               questionMap_of (question_findMany d quizId) (questionId a) \<noteq> None"
  shows "\<exists>new. submitQuizAnswers d quizId inp =
             Inr \<lparr>score = length (filter r_isCorrect new),
                  total_n = length (question_findMany d quizId),
                  percentage = percentage_of (length (filter r_isCorrect new))
                                 (length (question_findMany d quizId)),
                  results = new\<rparr> \<and>
           list_all2 (scored (questionMap_of (question_findMany d quizId))) (answers inp) new"
proof -
  from scoreLoop_resolved [OF res, of 0 "[]"] obtain new where
    "scoreLoop (questionMap_of (question_findMany d quizId)) (answers inp) 0 [] =
       Inr (length (filter r_isCorrect new), new)"
    "list_all2 (scored (questionMap_of (question_findMany d quizId))) (answers inp) new"
    by auto
  with quiz some show ?thesis
    by (intro exI [of _ new]) (simp add: submitQuizAnswers_def Let_def)
qed

text \<open>What a successful call tells: every condition of success, and the aggregate.\<close>

lemma submit_Inr:
  assumes "submitQuizAnswers d quizId inp = Inr sc"
  shows "quiz_findUnique d quizId \<noteq> None"
    and "question_findMany d quizId \<noteq> []"
    and "\<forall>a \<in> set (answers inp).
           questionMap_of (question_findMany d quizId) (questionId a) \<noteq> None"
    and "score sc = length (filter r_isCorrect (results sc))"
    and "total_n sc = length (question_findMany d quizId)"
    and "percentage sc = percentage_of (score sc) (total_n sc)"
    and "list_all2 (scored (questionMap_of (question_findMany d quizId))) (answers inp) (results sc)"
proof -
  from assms show quiz: "quiz_findUnique d quizId \<noteq> None"
    by (auto simp: submitQuizAnswers_def Let_def split: option.splits)
  from assms show some: "question_findMany d quizId \<noteq> []"
    by (auto simp: submitQuizAnswers_def Let_def split: option.splits if_splits)
  show res: "\<forall>a \<in> set (answers inp).
           questionMap_of (question_findMany d quizId) (questionId a) \<noteq> None"
  proof (rule ccontr)
    assume "\<not> ?thesis"
    then have "\<exists>a \<in> set (answers inp).
                 questionMap_of (question_findMany d quizId) (questionId a) = None"
      by simp
    from scoreLoop_unresolved [OF this, of 0 "[]"] obtain e where
      "scoreLoop (questionMap_of (question_findMany d quizId)) (answers inp) 0 [] = Inl e"
      by blast
    with assms show False
      by (auto simp: submitQuizAnswers_def Let_def split: option.splits if_splits)
  qed
  from quiz obtain qz where "quiz_findUnique d quizId = Some qz" by auto
  from submit_resolved [OF this some res] assms obtain new where
    sc: "sc = \<lparr>score = length (filter r_isCorrect new),
               total_n = length (question_findMany d quizId),
               percentage = percentage_of (length (filter r_isCorrect new))
                              (length (question_findMany d quizId)),
               results = new\<rparr>"
    and all2: "list_all2 (scored (questionMap_of (question_findMany d quizId))) (answers inp) new"
    by auto
  from sc show "score sc = length (filter r_isCorrect (results sc))"
    and "total_n sc = length (question_findMany d quizId)"
    and "percentage sc = percentage_of (score sc) (total_n sc)"
    by simp_all
  from sc all2 show
    "list_all2 (scored (questionMap_of (question_findMany d quizId))) (answers inp) (results sc)"
    by simp
qed

text \<open>The result at the place of an answer is the one computed for its question.\<close>

lemma result_at:
  assumes "submitQuizAnswers d quizId inp = Inr sc"
    and "i < length (answers inp)"
    and "questionMap_of (question_findMany d quizId) (questionId (answers inp ! i)) = Some q"
  shows "r_isCorrect (results sc ! i) = fst (scoreAnswer q (answers inp ! i))"
    and "r_correctAnswer (results sc ! i) = snd (scoreAnswer q (answers inp ! i))"
    and "r_questionId (results sc ! i) = questionId (answers inp ! i)"
    and "length (results sc) = length (answers inp)"
proof -
  note all2 = submit_Inr(7) [OF assms(1)]
  from list_all2_nthD [OF all2 assms(2)] assms(3)
  show "r_isCorrect (results sc ! i) = fst (scoreAnswer q (answers inp ! i))"
    and "r_correctAnswer (results sc ! i) = snd (scoreAnswer q (answers inp ! i))"
    and "r_questionId (results sc ! i) = questionId (answers inp ! i)"
    by (simp_all add: scored_def)
  from list_all2_lengthD [OF all2] show "length (results sc) = length (answers inp)"
    by simp
qed

text \<open>A call on an existing quiz whose answers all resolve returns a score.\<close>

lemma submit_returns:
  assumes "quiz_findUnique d quizId = Some qz"
    and "\<forall>a \<in> set (answers inp).
           questionMap_of (question_findMany d quizId) (questionId a) \<noteq> None"
    and "i < length (answers inp)"
  shows "\<exists>sc. submitQuizAnswers d quizId inp = Inr sc"
proof -
  from assms(3) have "answers inp ! i \<in> set (answers inp)" by simp
  with assms(2) have "questionMap_of (question_findMany d quizId)
                        (questionId (answers inp ! i)) \<noteq> None"
    by blast
  then have "question_findMany d quizId \<noteq> []"
    by (auto simp: questionMap_of_None)
  from submit_resolved [OF assms(1) this assms(2)] show ?thesis
    by blast
qed

section \<open>The verdict by question type\<close>

lemma scoreAnswer_multiple:
  assumes "q_type q = MULTIPLE_CHOICE"
  shows "fst (scoreAnswer q a) \<longleftrightarrow> set (selectedIds_of a) = set (correctOptionIds_of q)"
    and "snd (scoreAnswer q a) = StrArray (map opt_text (filter isCorrect (options q)))"
  using assms by (simp_all add: scoreAnswer_def Let_def Set_compare_iff)

lemma scoreAnswer_single:
  assumes "q_type q = SINGLE_CHOICE"
  shows "fst (scoreAnswer q a) \<longleftrightarrow>
           (\<exists>x c. selectedIds_of a = [x] \<and> filter isCorrect (options q) = [c] \<and> x = opt_id c)"
    and "snd (scoreAnswer q a) =
           Str (case find isCorrect (options q) of None \<Rightarrow> '''' | Some c \<Rightarrow> opt_text c)"
proof -
  have one: "length xs = Suc 0 \<longleftrightarrow> (\<exists>x. xs = [x])" for xs :: "'a list"
    by (cases xs) auto
  from assms show "fst (scoreAnswer q a) \<longleftrightarrow>
           (\<exists>x c. selectedIds_of a = [x] \<and> filter isCorrect (options q) = [c] \<and> x = opt_id c)"
    by (auto simp: scoreAnswer_def Let_def correctOptionIds_of_def one)
  from assms show "snd (scoreAnswer q a) =
           Str (case find isCorrect (options q) of None \<Rightarrow> '''' | Some c \<Rightarrow> opt_text c)"
    by (simp add: scoreAnswer_def Let_def split: option.splits)
qed

lemma scoreAnswer_text:
  assumes "q_type q = TEXT"
  shows "fst (scoreAnswer q a) \<longleftrightarrow>
           (\<exists>t c. textAnswer a = Some t \<and> t \<noteq> '''' \<and> find isCorrect (options q) = Some c \<and>
                  toLowerCase (trim t) = toLowerCase (trim (opt_text c)))"
    and "snd (scoreAnswer q a) =
           (case find isCorrect (options q) of
              None \<Rightarrow> Str ''''
            | Some c \<Rightarrow> if truthy (textAnswer a) then Str (opt_text c) else Str '''')"
  using assms by (simp_all add: scoreAnswer_def truthy_def split: option.splits)

text \<open>An option is found by \<open>find\<close> exactly when some option is correct.\<close>

lemma find_isCorrect_None:
  "find isCorrect (options q) = None \<longleftrightarrow> correctCount q = 0"
  by (auto simp: find_None_iff correctCount_def filter_empty_conv)

section \<open>Evaluation of the examples\<close>

lemmas string_defs = trim_def toLowerCase_def lowerChar_def isWhiteSpace_def char_of_eq_iff

lemma dbA_quiz: "quiz_findUnique dbA quizA = Some \<lparr>quiz_id = quizA, title = ''Test Quiz''\<rparr>"
  by (simp add: quiz_findUnique_def dbA_def)

lemma dbA_questions: "question_findMany dbA quizA = [qSingle, qMultiple, qText]"
  by (simp add: question_findMany_def dbA_def qSingle_def qMultiple_def qText_def)

lemma dbA_map:
  "questionMap_of [qSingle, qMultiple, qText] =
     [''a1000000-0000-4000-8000-000000000000'' \<mapsto> qSingle,
      ''a2000000-0000-4000-8000-000000000000'' \<mapsto> qMultiple,
      ''a3000000-0000-4000-8000-000000000000'' \<mapsto> qText]"
  by (simp add: questionMap_of_def Map_new_def qSingle_def qMultiple_def qText_def)

lemma dbB_quiz:
  "quiz_findUnique dbB quizB = Some \<lparr>quiz_id = quizB, title = ''Stored before validation''\<rparr>"
  by (simp add: quiz_findUnique_def dbB_def)

lemma dbB_questions: "question_findMany dbB quizB = [qNoCorrect, qTwoCorrect]"
  by (simp add: question_findMany_def dbB_def qNoCorrect_def qTwoCorrect_def)

lemma dbB_map:
  "questionMap_of [qNoCorrect, qTwoCorrect] =
     [''a4000000-0000-4000-8000-000000000000'' \<mapsto> qNoCorrect,
      ''a5000000-0000-4000-8000-000000000000'' \<mapsto> qTwoCorrect]"
  by (simp add: questionMap_of_def Map_new_def qNoCorrect_def qTwoCorrect_def)

text \<open>The call from its parts: the quiz, its questions, the loop and the percentage.\<close>

lemma submit_eval:
  assumes "quiz_findUnique d quizId = Some qz"
    and "question_findMany d quizId = qs"
    and "scoreLoop (questionMap_of qs) (answers inp) 0 [] = Inr (c, res)"
    and "length qs = n" and "0 < n"
    and "percentage_of c n = p"
  shows "submitQuizAnswers d quizId inp =
           Inr \<lparr>score = c, total_n = n, percentage = p, results = res\<rparr>"
  using assms by (auto simp: submitQuizAnswers_def Let_def)

lemma percentage_4_3: "percentage_of 4 3 = 133"
  by code_simp

lemma percentage_0_3: "percentage_of 0 3 = 0"
  by code_simp

lemma percentage_1_2: "percentage_of 1 2 = 50"
  by code_simp

lemma loop_inputRepeated:
  "scoreLoop (questionMap_of [qSingle, qMultiple, qText]) (answers inputRepeated) 0 [] =
     Inr (4, [rSingle, rSingle, rSingle, rSingle])"
  unfolding dbA_map
  by (simp add: inputRepeated_def aSingle_def scoreAnswer_def selectedIds_of_def
      correctOptionIds_of_def qSingle_def rSingle_def)

lemma submit_inputRepeated: "submitQuizAnswers dbA quizA inputRepeated = Inr scoreRepeated"
  unfolding scoreRepeated_def
  by (rule submit_eval [OF dbA_quiz dbA_questions loop_inputRepeated _ _ percentage_4_3])
    simp_all

lemma resolved_inputAll:
  "\<forall>a \<in> set (answers inputAll).
     questionMap_of (question_findMany dbA quizA) (questionId a) \<noteq> None"
  by (simp add: dbA_questions dbA_map inputAll_def aSingle_def aMultiple_def aText_def)

lemma loop_inputB:
  "scoreLoop (questionMap_of [qNoCorrect, qTwoCorrect]) (answers inputB) 0 [] =
     Inr (1, results scoreB)"
  unfolding dbB_map
  by (simp add: inputB_def aNoCorrectByText_def aTwoCorrect_def scoreAnswer_def
      selectedIds_of_def correctOptionIds_of_def Set_new_def qNoCorrect_def qTwoCorrect_def
      scoreB_def)

lemma submit_inputB: "submitQuizAnswers dbB quizB inputB = Inr scoreB"
proof -
  have "submitQuizAnswers dbB quizB inputB =
      Inr \<lparr>score = 1, total_n = 2, percentage = 50, results = results scoreB\<rparr>"
    by (rule submit_eval [OF dbB_quiz dbB_questions loop_inputB _ _ percentage_1_2]) simp_all
  then show ?thesis
    by (simp add: scoreB_def)
qed

lemma loop_inputOtherKind:
  "scoreLoop (questionMap_of [qSingle, qMultiple, qText]) (answers inputOtherKind) 0 [] =
     Inr (0, results scoreOtherKind)"
  unfolding dbA_map
  by (simp add: inputOtherKind_def aTextByOption_def aSingleByText_def scoreAnswer_def
      selectedIds_of_def correctOptionIds_of_def qSingle_def qText_def scoreOtherKind_def)

lemma submit_inputOtherKind: "submitQuizAnswers dbA quizA inputOtherKind = Inr scoreOtherKind"
proof -
  have "submitQuizAnswers dbA quizA inputOtherKind =
      Inr \<lparr>score = 0, total_n = 3, percentage = 0, results = results scoreOtherKind\<rparr>"
    by (rule submit_eval [OF dbA_quiz dbA_questions loop_inputOtherKind _ _ percentage_0_3])
      simp_all
  then show ?thesis
    by (simp add: scoreOtherKind_def)
qed

lemma resolved_inputB:
  "\<forall>a \<in> set (answers inputB).
     questionMap_of (question_findMany dbB quizB) (questionId a) \<noteq> None"
  by (simp add: dbB_questions dbB_map inputB_def aNoCorrectByText_def aTwoCorrect_def)

lemma resolved_inputOtherKind:
  "\<forall>a \<in> set (answers inputOtherKind).
     questionMap_of (question_findMany dbA quizA) (questionId a) \<noteq> None"
  by (simp add: dbA_questions dbA_map inputOtherKind_def aTextByOption_def aSingleByText_def)

section \<open>Multiple choice\<close>

text \<open>
  C1. In a call on an existing quiz whose answers all resolve, the answer to a
  MULTIPLE_CHOICE question is marked correct if and only if the set of its selected
  option identifiers (the list of the submission, duplicates collapsed) equals the set of
  the identifiers of the question's correct options: the two sets have the same size and
  the same members, whatever the order. A strict subset and a strict superset of the
  correct set are marked incorrect.
\<close>

theorem multiple_choice_set_equality:
  assumes "quiz_findUnique d quizId = Some qz"
    and "\<forall>a \<in> set (answers inp).
           questionMap_of (question_findMany d quizId) (questionId a) \<noteq> None"
    and "i < length (answers inp)"
    and "questionMap_of (question_findMany d quizId) (questionId (answers inp ! i)) = Some q"
    and "q_type q = MULTIPLE_CHOICE"
  shows "\<exists>sc. submitQuizAnswers d quizId inp = Inr sc \<and>
           (r_isCorrect (results sc ! i) \<longleftrightarrow>
              set (selectedIds_of (answers inp ! i)) = set (correctOptionIds_of q)) \<and>
           (r_isCorrect (results sc ! i) \<longleftrightarrow>
              card (set (selectedIds_of (answers inp ! i))) = card (set (correctOptionIds_of q)) \<and>
              set (selectedIds_of (answers inp ! i)) \<subseteq> set (correctOptionIds_of q)) \<and>
           (set (selectedIds_of (answers inp ! i)) \<subset> set (correctOptionIds_of q) \<or>
            set (correctOptionIds_of q) \<subset> set (selectedIds_of (answers inp ! i))
              \<longrightarrow> \<not> r_isCorrect (results sc ! i))"
proof -
  from submit_returns [OF assms(1,2,3)] obtain sc where
    sc: "submitQuizAnswers d quizId inp = Inr sc" by blast
  let ?sel = "set (selectedIds_of (answers inp ! i))"
  let ?cor = "set (correctOptionIds_of q)"
  have verdict: "r_isCorrect (results sc ! i) \<longleftrightarrow> ?sel = ?cor"
    using result_at(1) [OF sc assms(3,4)] scoreAnswer_multiple(1) [OF assms(5)] by simp
  have "?sel = ?cor \<longleftrightarrow> card ?sel = card ?cor \<and> ?sel \<subseteq> ?cor"
    using card_subset_eq [of ?cor ?sel] by auto
  with verdict sc show ?thesis
    by auto
qed

theorem multiple_choice_set_equality_witness:
  "\<exists>sc. submitQuizAnswers dbA quizA inputAll = Inr sc \<and> r_isCorrect (results sc ! 1) \<and>
        q_type qMultiple = MULTIPLE_CHOICE \<and>
        set (selectedIds_of (answers inputAll ! 1)) = set (correctOptionIds_of qMultiple)"
proof -
  have res: "\<forall>a \<in> set (answers inputAll).
               questionMap_of (question_findMany dbA quizA) (questionId a) \<noteq> None"
    by (simp add: dbA_questions dbA_map inputAll_def aSingle_def aMultiple_def aText_def)
  have i: "1 < length (answers inputAll)"
    by (simp add: inputAll_def)
  have q: "questionMap_of (question_findMany dbA quizA) (questionId (answers inputAll ! 1)) =
             Some qMultiple"
    by (simp add: dbA_questions dbA_map inputAll_def aMultiple_def)
  have t: "q_type qMultiple = MULTIPLE_CHOICE"
    by (simp add: qMultiple_def)
  have same: "set (selectedIds_of (answers inputAll ! 1)) = set (correctOptionIds_of qMultiple)"
    by (auto simp: inputAll_def aMultiple_def selectedIds_of_def correctOptionIds_of_def
        qMultiple_def)
  from multiple_choice_set_equality [OF dbA_quiz res i q t] same t show ?thesis
    by auto
qed

section \<open>Text\<close>

text \<open>
  Trimming removes white space at the two ends only: what stands between the first and
  the last character that is not white space is kept as it is.
\<close>

lemma trim_inner:
  assumes "list_all isWhiteSpace l" and "list_all isWhiteSpace r"
    and "\<not> isWhiteSpace x" and "\<not> isWhiteSpace y"
  shows "trim (l @ x # m @ y # r) = x # m @ [y]"
proof -
  have drop: "dropWhile isWhiteSpace (ws @ c # cs) = c # cs"
    if "list_all isWhiteSpace ws" and "\<not> isWhiteSpace c" for ws c cs
  proof -
    from that(1) have "dropWhile isWhiteSpace (ws @ c # cs) = dropWhile isWhiteSpace (c # cs)"
      by (intro dropWhile_append2) (simp add: list_all_iff)
    with that(2) show ?thesis by simp
  qed
  from assms(2) have "list_all isWhiteSpace (rev r)"
    by (simp add: list_all_iff)
  from drop [OF this assms(4)] have "dropWhile isWhiteSpace (rev r @ y # rev m @ [x]) = y # rev m @ [x]" .
  with drop [OF assms(1,3)] show ?thesis
    by (simp add: trim_def)
qed

text \<open>The texts of the specification's examples, and one with white space inside.\<close>

lemma text_examples:
  "toLowerCase (trim ''Paris'') = ''paris''"
  "toLowerCase (trim ''PARIS'') = ''paris''"
  "toLowerCase (trim '' paris '') = ''paris''"
  "toLowerCase (trim ''New  York'') \<noteq> toLowerCase (trim ''New York'')"
  by (simp_all add: string_defs)

text \<open>
  C2. In a call on an existing quiz whose answers all resolve, the answer to a TEXT
  question is marked incorrect when it supplies no text (the text is absent or empty) or
  when no option of the question has \<open>isCorrect = true\<close>. Otherwise, with \<open>t\<close> the
  submitted text and \<open>c\<close> the correct-answer option (the first correct one), it is
  marked correct if and only if \<open>t\<close> and the text of \<open>c\<close> are equal after both are
  trimmed at the two ends and put in lower case.
\<close>

theorem text_verdict:
  assumes "quiz_findUnique d quizId = Some qz"
    and "\<forall>a \<in> set (answers inp).
           questionMap_of (question_findMany d quizId) (questionId a) \<noteq> None"
    and "i < length (answers inp)"
    and "questionMap_of (question_findMany d quizId) (questionId (answers inp ! i)) = Some q"
    and "q_type q = TEXT"
  shows "\<exists>sc. submitQuizAnswers d quizId inp = Inr sc \<and>
           (\<not> truthy (textAnswer (answers inp ! i)) \<or> \<not> (\<exists>c \<in> set (options q). isCorrect c)
              \<longrightarrow> \<not> r_isCorrect (results sc ! i)) \<and>
           (\<forall>t c. textAnswer (answers inp ! i) = Some t \<and> t \<noteq> '''' \<and>
                  find isCorrect (options q) = Some c
              \<longrightarrow> (r_isCorrect (results sc ! i) \<longleftrightarrow>
                     toLowerCase (trim t) = toLowerCase (trim (opt_text c))))"
proof -
  from submit_returns [OF assms(1,2,3)] obtain sc where
    sc: "submitQuizAnswers d quizId inp = Inr sc" by blast
  have verdict: "r_isCorrect (results sc ! i) \<longleftrightarrow>
      (\<exists>t c. textAnswer (answers inp ! i) = Some t \<and> t \<noteq> '''' \<and>
             find isCorrect (options q) = Some c \<and>
             toLowerCase (trim t) = toLowerCase (trim (opt_text c)))"
    using result_at(1) [OF sc assms(3,4)] scoreAnswer_text(1) [OF assms(5)] by simp
  have none: "\<not> (\<exists>c \<in> set (options q). isCorrect c) \<Longrightarrow> find isCorrect (options q) = None"
    by (simp add: find_None_iff)
  from verdict have "\<not> truthy (textAnswer (answers inp ! i)) \<or>
        \<not> (\<exists>c \<in> set (options q). isCorrect c) \<longrightarrow> \<not> r_isCorrect (results sc ! i)"
    using none by (auto simp: truthy_def)
  moreover from verdict have "\<forall>t c. textAnswer (answers inp ! i) = Some t \<and> t \<noteq> '''' \<and>
                  find isCorrect (options q) = Some c
              \<longrightarrow> (r_isCorrect (results sc ! i) \<longleftrightarrow>
                     toLowerCase (trim t) = toLowerCase (trim (opt_text c)))"
    by auto
  ultimately show ?thesis
    using sc by blast
qed

theorem text_verdict_witness:
  "\<exists>sc. submitQuizAnswers dbA quizA inputAll = Inr sc \<and> r_isCorrect (results sc ! 2) \<and>
        q_type qText = TEXT \<and> textAnswer (answers inputAll ! 2) = Some '' PARIS '' \<and>
        toLowerCase (trim '' PARIS '') = toLowerCase (trim ''Paris'')"
proof -
  have res: "\<forall>a \<in> set (answers inputAll).
               questionMap_of (question_findMany dbA quizA) (questionId a) \<noteq> None"
    by (simp add: dbA_questions dbA_map inputAll_def aSingle_def aMultiple_def aText_def)
  have i: "2 < length (answers inputAll)"
    by (simp add: inputAll_def)
  have q: "questionMap_of (question_findMany dbA quizA) (questionId (answers inputAll ! 2)) =
             Some qText"
    by (simp add: dbA_questions dbA_map inputAll_def aText_def)
  have t: "q_type qText = TEXT"
    by (simp add: qText_def)
  have a: "textAnswer (answers inputAll ! 2) = Some '' PARIS ''"
    by (simp add: inputAll_def aText_def)
  have c: "find isCorrect (options qText) =
             Some \<lparr>opt_id = ''b8000000-0000-4000-8000-000000000000'', opt_text = ''Paris'',
                   isCorrect = True\<rparr>"
    by (simp add: qText_def)
  have same: "toLowerCase (trim '' PARIS '') = toLowerCase (trim ''Paris'')"
    by (simp add: string_defs)
  from text_verdict [OF dbA_quiz res i q t] a c same t show ?thesis
    by fastforce
qed

section \<open>Single choice\<close>

text \<open>
  C3. In a call on an existing quiz whose answers all resolve, the answer to a
  SINGLE_CHOICE question is marked correct if and only if the submission selects exactly
  one option identifier, the question has exactly one correct option, and the two
  identifiers are equal. When the number of correct options is not one the verdict is
  incorrect, and the call still returns. The reported correct answer is the text of the
  first correct option, or the empty string when there is none.
\<close>

theorem single_choice_verdict:
  assumes "quiz_findUnique d quizId = Some qz"
    and "\<forall>a \<in> set (answers inp).
           questionMap_of (question_findMany d quizId) (questionId a) \<noteq> None"
    and "i < length (answers inp)"
    and "questionMap_of (question_findMany d quizId) (questionId (answers inp ! i)) = Some q"
    and "q_type q = SINGLE_CHOICE"
  shows "\<exists>sc. submitQuizAnswers d quizId inp = Inr sc \<and>
           (r_isCorrect (results sc ! i) \<longleftrightarrow>
              (\<exists>x c. selectedIds_of (answers inp ! i) = [x] \<and>
                     filter isCorrect (options q) = [c] \<and> x = opt_id c)) \<and>
           (correctCount q \<noteq> 1 \<longrightarrow> \<not> r_isCorrect (results sc ! i)) \<and>
           r_correctAnswer (results sc ! i) =
             Str (case find isCorrect (options q) of None \<Rightarrow> '''' | Some c \<Rightarrow> opt_text c)"
proof -
  from submit_returns [OF assms(1,2,3)] obtain sc where
    sc: "submitQuizAnswers d quizId inp = Inr sc" by blast
  have verdict: "r_isCorrect (results sc ! i) \<longleftrightarrow>
      (\<exists>x c. selectedIds_of (answers inp ! i) = [x] \<and>
             filter isCorrect (options q) = [c] \<and> x = opt_id c)"
    using result_at(1) [OF sc assms(3,4)] scoreAnswer_single(1) [OF assms(5)] by simp
  then have "correctCount q \<noteq> 1 \<longrightarrow> \<not> r_isCorrect (results sc ! i)"
    by (auto simp: correctCount_def)
  moreover have "r_correctAnswer (results sc ! i) =
      Str (case find isCorrect (options q) of None \<Rightarrow> '''' | Some c \<Rightarrow> opt_text c)"
    using result_at(2) [OF sc assms(3,4)] scoreAnswer_single(2) [OF assms(5)] by simp
  ultimately show ?thesis
    using sc verdict by blast
qed

theorem single_choice_verdict_witness:
  "(\<exists>sc. submitQuizAnswers dbA quizA inputAll = Inr sc \<and> r_isCorrect (results sc ! 0) \<and>
         r_correctAnswer (results sc ! 0) = Str ''4'' \<and> correctCount qSingle = 1) \<and>
   (\<exists>sc. submitQuizAnswers dbB quizB inputB = Inr sc \<and> \<not> r_isCorrect (results sc ! 1) \<and>
         r_correctAnswer (results sc ! 1) = Str ''Left'' \<and> correctCount qTwoCorrect = 2)"
proof -
  have resA: "\<forall>a \<in> set (answers inputAll).
               questionMap_of (question_findMany dbA quizA) (questionId a) \<noteq> None"
    by (simp add: dbA_questions dbA_map inputAll_def aSingle_def aMultiple_def aText_def)
  have iA: "0 < length (answers inputAll)"
    by (simp add: inputAll_def)
  have qA: "questionMap_of (question_findMany dbA quizA) (questionId (answers inputAll ! 0)) =
             Some qSingle"
    by (simp add: dbA_questions dbA_map inputAll_def aSingle_def)
  have tA: "q_type qSingle = SINGLE_CHOICE"
    by (simp add: qSingle_def)
  have selA: "selectedIds_of (answers inputAll ! 0) = [''b2000000-0000-4000-8000-000000000000'']"
    by (simp add: inputAll_def aSingle_def selectedIds_of_def)
  have corA: "filter isCorrect (options qSingle) =
      [\<lparr>opt_id = ''b2000000-0000-4000-8000-000000000000'', opt_text = ''4'', isCorrect = True\<rparr>]"
    by (simp add: qSingle_def)
  have findA: "find isCorrect (options qSingle) =
      Some \<lparr>opt_id = ''b2000000-0000-4000-8000-000000000000'', opt_text = ''4'', isCorrect = True\<rparr>"
    by (simp add: qSingle_def)
  have first: "\<exists>sc. submitQuizAnswers dbA quizA inputAll = Inr sc \<and> r_isCorrect (results sc ! 0) \<and>
         r_correctAnswer (results sc ! 0) = Str ''4'' \<and> correctCount qSingle = 1"
    using single_choice_verdict [OF dbA_quiz resA iA qA tA] selA corA findA
    by (auto simp: correctCount_def)
  have resB: "\<forall>a \<in> set (answers inputB).
               questionMap_of (question_findMany dbB quizB) (questionId a) \<noteq> None"
    by (simp add: dbB_questions dbB_map inputB_def aNoCorrectByText_def aTwoCorrect_def)
  have iB: "1 < length (answers inputB)"
    by (simp add: inputB_def)
  have qB: "questionMap_of (question_findMany dbB quizB) (questionId (answers inputB ! 1)) =
             Some qTwoCorrect"
    by (simp add: dbB_questions dbB_map inputB_def aTwoCorrect_def)
  have tB: "q_type qTwoCorrect = SINGLE_CHOICE"
    by (simp add: qTwoCorrect_def)
  have countB: "correctCount qTwoCorrect = 2"
    by (simp add: correctCount_def qTwoCorrect_def)
  have findB: "find isCorrect (options qTwoCorrect) =
      Some \<lparr>opt_id = ''bb000000-0000-4000-8000-000000000000'', opt_text = ''Left'',
            isCorrect = True\<rparr>"
    by (simp add: qTwoCorrect_def)
  have second: "\<exists>sc. submitQuizAnswers dbB quizB inputB = Inr sc \<and>
         \<not> r_isCorrect (results sc ! 1) \<and>
         r_correctAnswer (results sc ! 1) = Str ''Left'' \<and> correctCount qTwoCorrect = 2"
    using single_choice_verdict [OF dbB_quiz resB iB qB tB] countB findB
    by auto
  from first second show ?thesis
    by blast
qed

section \<open>An answer to a question that is not of the quiz\<close>

text \<open>
  C4. When some answer of a submission names a question that is not among the questions
  of the target quiz, the call returns an error and no score. On an existing quiz the
  error is a bad request (status 400), and when the quiz has a question it is the
  unknown-question error, naming the identifier of the first answer that does not
  resolve. The results pushed for the answers before it are not part of what is
  returned.
\<close>

theorem unknown_question_aborts:
  assumes "\<exists>a \<in> set (answers inp).
             questionMap_of (question_findMany d quizId) (questionId a) = None"
  shows "(\<exists>e. submitQuizAnswers d quizId inp = Inl e) \<and>
         (quiz_findUnique d quizId \<noteq> None \<longrightarrow>
            (\<exists>msg. submitQuizAnswers d quizId inp = Inl (AppError msg 400))) \<and>
         (quiz_findUnique d quizId \<noteq> None \<and> question_findMany d quizId \<noteq> [] \<longrightarrow>
            (\<exists>pre a post. answers inp = pre @ a # post \<and>
               (\<forall>b \<in> set pre.
                  questionMap_of (question_findMany d quizId) (questionId b) \<noteq> None) \<and>
               questionMap_of (question_findMany d quizId) (questionId a) = None \<and>
               submitQuizAnswers d quizId inp =
                 Inl (AppError (''Question with ID '' @ questionId a @ '' not found in this quiz'')
                        BAD_REQUEST)))"
proof -
  let ?qm = "questionMap_of (question_findMany d quizId)"
  from split_list_first_prop [OF assms] obtain pre a post where
    split: "answers inp = pre @ a # post" "?qm (questionId a) = None"
      "\<forall>b \<in> set pre. ?qm (questionId b) \<noteq> None"
    by blast
  from scoreLoop_first_unresolved [OF split(3,2), of post 0 "[]"] split(1)
  have loop: "scoreLoop ?qm (answers inp) 0 [] =
      Inl (AppError (''Question with ID '' @ questionId a @ '' not found in this quiz'') BAD_REQUEST)"
    by simp
  have err: "\<exists>e. submitQuizAnswers d quizId inp = Inl e"
    using loop by (simp add: submitQuizAnswers_def Let_def split: option.splits)
  have bad: "quiz_findUnique d quizId \<noteq> None \<longrightarrow>
            (\<exists>msg. submitQuizAnswers d quizId inp = Inl (AppError msg 400))"
    using loop by (auto simp: submitQuizAnswers_def Let_def BAD_REQUEST_def)
  have unknown: "quiz_findUnique d quizId \<noteq> None \<and> question_findMany d quizId \<noteq> [] \<longrightarrow>
            submitQuizAnswers d quizId inp =
                 Inl (AppError (''Question with ID '' @ questionId a @ '' not found in this quiz'')
                        BAD_REQUEST)"
    using loop by (auto simp: submitQuizAnswers_def Let_def)
  from err bad unknown split show ?thesis
    by blast
qed

theorem unknown_question_aborts_witness:
  "submitQuizAnswers dbA quizA inputForeign =
     Inl (AppError ''Question with ID f0000000-0000-4000-8000-000000000000 not found in this quiz''
            400) \<and>
   questionMap_of (question_findMany dbA quizA) (questionId (answers inputForeign ! 1)) = None \<and>
   questionMap_of (question_findMany dbA quizA) (questionId (answers inputForeign ! 0)) \<noteq> None"
proof -
  let ?qm = "questionMap_of (question_findMany dbA quizA)"
  have foreign: "?qm (questionId aForeign) = None"
    by (simp add: dbA_questions dbA_map aForeign_def)
  then have unres: "\<exists>a \<in> set (answers inputForeign). ?qm (questionId a) = None"
    by (simp add: inputForeign_def)
  have others: "?qm (questionId aSingle) \<noteq> None" "?qm (questionId aText) \<noteq> None"
    by (simp_all add: dbA_questions dbA_map aSingle_def aText_def)
  have quiz: "quiz_findUnique dbA quizA \<noteq> None \<and> question_findMany dbA quizA \<noteq> []"
    by (simp add: dbA_quiz dbA_questions)
  from unknown_question_aborts [OF unres] quiz obtain pre a post where
    a: "answers inputForeign = pre @ a # post"
       "?qm (questionId a) = None"
       "submitQuizAnswers dbA quizA inputForeign =
          Inl (AppError (''Question with ID '' @ questionId a @ '' not found in this quiz'')
                 BAD_REQUEST)"
    by blast
  from a(1) have "a \<in> set (answers inputForeign)"
    by simp
  with a(2) others have "a = aForeign"
    by (auto simp: inputForeign_def)
  with a(3) foreign others(1) show ?thesis
    by (simp add: aForeign_def BAD_REQUEST_def inputForeign_def)
qed

section \<open>The learner view\<close>

lemma learnerOption_fields: "fieldNames (learnerOption owner c) = [''id'', ''text'']"
  by (simp add: learnerOption_def fieldNames_def select_def option_row_def)

lemma learnerQuestion_fields:
  "fieldNames (learnerQuestion q) = [''id'', ''text'', ''type'', ''options'']"
  by (simp add: learnerQuestion_def fieldNames_def select_def question_row_def)

lemma learnerQuestion_options:
  "elements (field ''options'' (learnerQuestion q)) = map (learnerOption (q_id q)) (options q)"
  by (simp add: learnerQuestion_def field_def elements_def select_def question_row_def)

lemma learnerQuestion_id: "field ''id'' (learnerQuestion q) = Some (JString (q_id q))"
  by (simp add: learnerQuestion_def field_def select_def question_row_def)

text \<open>
  C6. For an existing quiz the questions read operation returns one object for each
  question of the quiz, with the fields \<open>id\<close>, \<open>text\<close>, \<open>type\<close> and \<open>options\<close>,
  and each element of \<open>options\<close> (one for each option of the question) is an object
  with the fields \<open>id\<close> and \<open>text\<close> and no other: no option of the learner view has
  a field \<open>isCorrect\<close>.
\<close>

theorem learner_view_without_isCorrect:
  assumes "quiz_findUnique d quizId = Some qz"
  shows "\<exists>view. getQuizQuestions d quizId = Inr view \<and>
           length view = length (question_findMany d quizId) \<and>
           (\<forall>q \<in> set (question_findMany d quizId).
              \<exists>qv \<in> set view. field ''id'' qv = Some (JString (q_id q)) \<and>
                 length (elements (field ''options'' qv)) = length (options q)) \<and>
           (\<forall>qv \<in> set view.
              fieldNames qv = [''id'', ''text'', ''type'', ''options''] \<and>
              (\<forall>ov \<in> set (elements (field ''options'' qv)).
                 fieldNames ov = [''id'', ''text''] \<and> ''isCorrect'' \<notin> set (fieldNames ov)))"
proof -
  let ?view = "map learnerQuestion (sort_key q_id (question_findMany d quizId))"
  from assms have "getQuizQuestions d quizId = Inr ?view"
    by (simp add: getQuizQuestions_def)
  moreover have "length ?view = length (question_findMany d quizId)"
    by simp
  moreover have "\<forall>q \<in> set (question_findMany d quizId).
      \<exists>qv \<in> set ?view. field ''id'' qv = Some (JString (q_id q)) \<and>
         length (elements (field ''options'' qv)) = length (options q)"
    by (auto simp: learnerQuestion_id learnerQuestion_options)
  moreover have "\<forall>qv \<in> set ?view.
      fieldNames qv = [''id'', ''text'', ''type'', ''options''] \<and>
      (\<forall>ov \<in> set (elements (field ''options'' qv)).
         fieldNames ov = [''id'', ''text''] \<and> ''isCorrect'' \<notin> set (fieldNames ov))"
    by (auto simp: learnerQuestion_fields learnerQuestion_options learnerOption_fields)
  ultimately show ?thesis
    by blast
qed

theorem learner_view_without_isCorrect_witness:
  "\<exists>view. getQuizQuestions dbA quizA = Inr view \<and> length view = 3 \<and>
          list_all (\<lambda>qv. elements (field ''options'' qv) \<noteq> [] \<and>
                         list_all (\<lambda>ov. fieldNames ov = [''id'', ''text''])
                           (elements (field ''options'' qv))) view"
proof -
  from learner_view_without_isCorrect [OF dbA_quiz] obtain view where
    view: "getQuizQuestions dbA quizA = Inr view"
      "length view = length (question_findMany dbA quizA)"
      "\<forall>qv \<in> set view. \<forall>ov \<in> set (elements (field ''options'' qv)).
         fieldNames ov = [''id'', ''text'']"
    by blast
  from view(1) have "view = map learnerQuestion (sort_key q_id (question_findMany dbA quizA))"
    by (simp add: getQuizQuestions_def dbA_quiz)
  then have "\<forall>qv \<in> set view. elements (field ''options'' qv) \<noteq> []"
    by (auto simp: dbA_questions learnerQuestion_options qSingle_def qMultiple_def qText_def)
  with view show ?thesis
    by (auto simp: dbA_questions list_all_iff)
qed

section \<open>The aggregate\<close>

text \<open>
  C7, as the code has it. In a successful call the score is at least zero and at most
  the number of submitted answers, and the total is the number of questions of the quiz.
  The score is at most the total when no two answers of the submission name the same
  question; several answers to one question are each counted.
\<close>

theorem score_bounds:
  assumes "submitQuizAnswers d quizId inp = Inr sc"
  shows "0 \<le> score sc \<and> score sc \<le> length (answers inp) \<and>
         total_n sc = length (question_findMany d quizId) \<and>
         (distinct (map questionId (answers inp)) \<longrightarrow> score sc \<le> total_n sc)"
proof -
  note ok = submit_Inr [OF assms]
  have len: "length (results sc) = length (answers inp)"
    using list_all2_lengthD [OF ok(7)] by simp
  have le: "score sc \<le> length (answers inp)"
    using ok(4) len length_filter_le [of r_isCorrect "results sc"] by simp
  have "length (answers inp) \<le> length (question_findMany d quizId)"
    if dist: "distinct (map questionId (answers inp))"
  proof -
    from ok(3) have "questionId ` set (answers inp) \<subseteq> q_id ` set (question_findMany d quizId)"
      by (auto simp: questionMap_of_None)
    then have "card (questionId ` set (answers inp)) \<le> card (q_id ` set (question_findMany d quizId))"
      by (intro card_mono) simp_all
    also have "\<dots> \<le> card (set (question_findMany d quizId))"
      by (rule card_image_le) simp
    also have "\<dots> \<le> length (question_findMany d quizId)"
      by (rule card_length)
    finally show ?thesis
      using distinct_card [OF dist] by simp
  qed
  with le ok(5) show ?thesis
    by auto
qed

theorem score_bounds_witness:
  "\<exists>sc. submitQuizAnswers dbA quizA inputAll = Inr sc \<and>
        distinct (map questionId (answers inputAll)) \<and> score sc \<le> total_n sc \<and> total_n sc = 3"
proof -
  have "0 < length (answers inputAll)"
    by (simp add: inputAll_def)
  from submit_returns [OF dbA_quiz resolved_inputAll this] obtain sc where
    sc: "submitQuizAnswers dbA quizA inputAll = Inr sc" by blast
  have "distinct (map questionId (answers inputAll))"
    by (simp add: inputAll_def aSingle_def aMultiple_def aText_def)
  with score_bounds [OF sc] sc show ?thesis
    by (auto simp: dbA_questions)
qed

text \<open>
  The submission \<open>inputRepeated\<close> passes the validation and answers the single-choice
  question of the three-question quiz four times, each time correctly: the score is 4
  and the total is 3.
\<close>

theorem repeated_answers_exceed_total:
  "submitAnswersSchema inputRepeated \<and>
   submitQuizAnswers dbA quizA inputRepeated = Inr scoreRepeated \<and>
   \<not> score scoreRepeated \<le> total_n scoreRepeated"
proof -
  have "submitAnswersSchema inputRepeated"
    by (simp add: submitAnswersSchema_def inputRepeated_def aSingle_def hasSelectedIds_def
        truthy_def)
  moreover have "\<not> score scoreRepeated \<le> total_n scoreRepeated"
    by (simp add: scoreRepeated_def)
  ultimately show ?thesis
    using submit_inputRepeated by simp
qed

section \<open>Stored questions that break their invariant\<close>

text \<open>
  C8, as the code has it. When a resolved question breaks the invariant of its type (a
  SINGLE_CHOICE question whose number of correct options is not one, a MULTIPLE_CHOICE
  or a TEXT question with no correct option) the call still returns. The answer is marked
  incorrect when the question is SINGLE_CHOICE or TEXT. When it is MULTIPLE_CHOICE the
  answer is marked incorrect exactly when the submission selects some option identifier:
  a submission that selects none, such as a text answer, is marked correct, the empty
  selection being equal to the empty set of correct options.
\<close>

theorem malformed_question_verdict:
  assumes "quiz_findUnique d quizId = Some qz"
    and "\<forall>a \<in> set (answers inp).
           questionMap_of (question_findMany d quizId) (questionId a) \<noteq> None"
    and "i < length (answers inp)"
    and "questionMap_of (question_findMany d quizId) (questionId (answers inp ! i)) = Some q"
    and "\<not> typeInvariant q"
  shows "\<exists>sc. submitQuizAnswers d quizId inp = Inr sc \<and>
           (q_type q \<noteq> MULTIPLE_CHOICE \<longrightarrow> \<not> r_isCorrect (results sc ! i)) \<and>
           (q_type q = MULTIPLE_CHOICE \<longrightarrow>
              (r_isCorrect (results sc ! i) \<longleftrightarrow> selectedIds_of (answers inp ! i) = []))"
proof -
  from submit_returns [OF assms(1,2,3)] obtain sc where
    sc: "submitQuizAnswers d quizId inp = Inr sc" by blast
  note verdict = result_at(1) [OF sc assms(3,4)]
  show ?thesis
  proof (cases "q_type q")
    case SINGLE_CHOICE
    with assms(5) have "correctCount q \<noteq> 1"
      by (simp add: typeInvariant_def)
    with verdict scoreAnswer_single(1) [OF SINGLE_CHOICE] have "\<not> r_isCorrect (results sc ! i)"
      by (auto simp: correctCount_def)
    with sc SINGLE_CHOICE show ?thesis by simp
  next
    case MULTIPLE_CHOICE
    with assms(5) have "correctCount q = 0"
      by (simp add: typeInvariant_def)
    then have "correctOptionIds_of q = []"
      by (simp add: correctCount_def correctOptionIds_of_def)
    with verdict scoreAnswer_multiple(1) [OF MULTIPLE_CHOICE]
    have "r_isCorrect (results sc ! i) \<longleftrightarrow> selectedIds_of (answers inp ! i) = []"
      by simp
    with sc MULTIPLE_CHOICE show ?thesis by simp
  next
    case TEXT
    with assms(5) have "correctCount q = 0"
      by (simp add: typeInvariant_def)
    then have "find isCorrect (options q) = None"
      by (simp add: find_isCorrect_None)
    with verdict scoreAnswer_text(1) [OF TEXT] have "\<not> r_isCorrect (results sc ! i)"
      by simp
    with sc TEXT show ?thesis by simp
  qed
qed

theorem malformed_question_verdict_witness:
  "\<exists>sc. submitQuizAnswers dbB quizB inputB = Inr sc \<and>
        \<not> typeInvariant qNoCorrect \<and> selectedIds_of (answers inputB ! 0) = [] \<and>
        r_isCorrect (results sc ! 0) \<and>
        \<not> typeInvariant qTwoCorrect \<and> \<not> r_isCorrect (results sc ! 1)"
proof -
  have q0: "questionMap_of (question_findMany dbB quizB) (questionId (answers inputB ! 0)) =
              Some qNoCorrect"
    and q1: "questionMap_of (question_findMany dbB quizB) (questionId (answers inputB ! 1)) =
              Some qTwoCorrect"
    by (simp_all add: dbB_questions dbB_map inputB_def aNoCorrectByText_def aTwoCorrect_def)
  have i0: "0 < length (answers inputB)" and i1: "1 < length (answers inputB)"
    by (simp_all add: inputB_def)
  have bad0: "\<not> typeInvariant qNoCorrect" and bad1: "\<not> typeInvariant qTwoCorrect"
    by (simp_all add: typeInvariant_def correctCount_def qNoCorrect_def qTwoCorrect_def)
  have t0: "q_type qNoCorrect = MULTIPLE_CHOICE" and t1: "q_type qTwoCorrect = SINGLE_CHOICE"
    by (simp_all add: qNoCorrect_def qTwoCorrect_def)
  have sel: "selectedIds_of (answers inputB ! 0) = []"
    by (simp add: inputB_def aNoCorrectByText_def selectedIds_of_def)
  from malformed_question_verdict [OF dbB_quiz resolved_inputB i0 q0 bad0]
    malformed_question_verdict [OF dbB_quiz resolved_inputB i1 q1 bad1]
    t0 t1 sel bad0 bad1
  show ?thesis
    by auto
qed

text \<open>
  The submission \<open>inputB\<close> passes the validation; its first answer gives a text to the
  multiple-choice question that has no correct option, and it is marked correct.
\<close>

theorem malformed_multiple_choice_marked_correct:
  "submitAnswersSchema inputB \<and>
   submitQuizAnswers dbB quizB inputB = Inr scoreB \<and>
   questionMap_of (question_findMany dbB quizB) (questionId (answers inputB ! 0)) =
     Some qNoCorrect \<and>
   q_type qNoCorrect = MULTIPLE_CHOICE \<and> correctCount qNoCorrect = 0 \<and>
   r_isCorrect (results scoreB ! 0)"
proof -
  have "submitAnswersSchema inputB"
    by (simp add: submitAnswersSchema_def inputB_def aNoCorrectByText_def aTwoCorrect_def
        hasSelectedIds_def hasText_def truthy_def string_defs)
  moreover have
    "questionMap_of (question_findMany dbB quizB) (questionId (answers inputB ! 0)) =
       Some qNoCorrect"
    by (simp add: dbB_questions dbB_map inputB_def aNoCorrectByText_def)
  moreover have "q_type qNoCorrect = MULTIPLE_CHOICE \<and> correctCount qNoCorrect = 0"
    by (simp add: qNoCorrect_def correctCount_def)
  moreover have "r_isCorrect (results scoreB ! 0)"
    by (simp add: scoreB_def)
  ultimately show ?thesis
    using submit_inputB by simp
qed

section \<open>The reported correct answer of a text question\<close>

text \<open>
  C9, as the code has it. For a TEXT question resolved in a call that returns, the
  result records the text of the question's correct-answer option as \<open>correctAnswer\<close>
  when that option exists and the submitted answer supplies a text (present and not
  empty); when the option is missing or the answer supplies no text, \<open>correctAnswer\<close>
  is the empty string.
\<close>

theorem text_correct_answer:
  assumes "quiz_findUnique d quizId = Some qz"
    and "\<forall>a \<in> set (answers inp).
           questionMap_of (question_findMany d quizId) (questionId a) \<noteq> None"
    and "i < length (answers inp)"
    and "questionMap_of (question_findMany d quizId) (questionId (answers inp ! i)) = Some q"
    and "q_type q = TEXT"
  shows "\<exists>sc. submitQuizAnswers d quizId inp = Inr sc \<and>
           (\<forall>c. find isCorrect (options q) = Some c \<and> truthy (textAnswer (answers inp ! i))
              \<longrightarrow> r_correctAnswer (results sc ! i) = Str (opt_text c)) \<and>
           (find isCorrect (options q) = None \<or> \<not> truthy (textAnswer (answers inp ! i))
              \<longrightarrow> r_correctAnswer (results sc ! i) = Str '''')"
proof -
  from submit_returns [OF assms(1,2,3)] obtain sc where
    sc: "submitQuizAnswers d quizId inp = Inr sc" by blast
  from result_at(2) [OF sc assms(3,4)] scoreAnswer_text(2) [OF assms(5)]
  have "r_correctAnswer (results sc ! i) =
          (case find isCorrect (options q) of
             None \<Rightarrow> Str ''''
           | Some c \<Rightarrow> if truthy (textAnswer (answers inp ! i)) then Str (opt_text c) else Str '''')"
    by simp
  with sc show ?thesis
    by (auto split: option.splits)
qed

theorem text_correct_answer_witness:
  "\<exists>sc. submitQuizAnswers dbA quizA inputAll = Inr sc \<and> q_type qText = TEXT \<and>
        truthy (textAnswer (answers inputAll ! 2)) \<and>
        r_correctAnswer (results sc ! 2) = Str ''Paris''"
proof -
  have i: "2 < length (answers inputAll)"
    by (simp add: inputAll_def)
  have q: "questionMap_of (question_findMany dbA quizA) (questionId (answers inputAll ! 2)) =
             Some qText"
    by (simp add: dbA_questions dbA_map inputAll_def aText_def)
  have t: "q_type qText = TEXT"
    by (simp add: qText_def)
  have a: "truthy (textAnswer (answers inputAll ! 2))"
    by (simp add: inputAll_def aText_def truthy_def)
  have c: "find isCorrect (options qText) =
             Some \<lparr>opt_id = ''b8000000-0000-4000-8000-000000000000'', opt_text = ''Paris'',
                   isCorrect = True\<rparr>"
    by (simp add: qText_def)
  from text_correct_answer [OF dbA_quiz resolved_inputAll i q t] a c t show ?thesis
    by fastforce
qed

text \<open>
  The submission \<open>inputOtherKind\<close> passes the validation; its first answer selects an option
  for the text question whose correct text is Paris, and the result reports the empty
  string.
\<close>

theorem text_answered_by_option_reports_no_text:
  "submitAnswersSchema inputOtherKind \<and>
   submitQuizAnswers dbA quizA inputOtherKind = Inr scoreOtherKind \<and>
   questionMap_of (question_findMany dbA quizA) (questionId (answers inputOtherKind ! 0)) =
     Some qText \<and>
   q_type qText = TEXT \<and>
   map opt_text (filter isCorrect (options qText)) = [''Paris''] \<and>
   r_correctAnswer (results scoreOtherKind ! 0) = Str '''' \<and>
   r_correctAnswer (results scoreOtherKind ! 0) \<noteq> Str ''Paris''"
proof -
  have "submitAnswersSchema inputOtherKind"
    by (simp add: submitAnswersSchema_def inputOtherKind_def aTextByOption_def aSingleByText_def
        hasSelectedIds_def hasText_def truthy_def string_defs)
  moreover have
    "questionMap_of (question_findMany dbA quizA) (questionId (answers inputOtherKind ! 0)) =
       Some qText"
    by (simp add: dbA_questions dbA_map inputOtherKind_def aTextByOption_def)
  moreover have "q_type qText = TEXT \<and> map opt_text (filter isCorrect (options qText)) = [''Paris'']"
    by (simp add: qText_def)
  moreover have "r_correctAnswer (results scoreOtherKind ! 0) = Str ''''"
    by (simp add: scoreOtherKind_def)
  ultimately show ?thesis
    using submit_inputOtherKind by simp
qed

section \<open>An answer of the other kind\<close>

lemma scoreAnswer_other_kind:
  assumes "typeInvariant q"
    and "(q_type q = TEXT \<and> hasSelectedIds a) \<or> (q_type q \<noteq> TEXT \<and> hasText a)"
  shows "fst (scoreAnswer q a) = False"
    and "scoreAnswer q a = scoreAnswer q (a\<lparr>selectedOptionIds := None, textAnswer := None\<rparr>)"
proof -
  from assms(2) show "scoreAnswer q a =
      scoreAnswer q (a\<lparr>selectedOptionIds := None, textAnswer := None\<rparr>)"
    by (cases "q_type q")
      (auto simp: scoreAnswer_def selectedIds_of_def hasSelectedIds_def hasText_def truthy_def
        split: option.splits)
  show "fst (scoreAnswer q a) = False"
  proof (cases "q_type q")
    case SINGLE_CHOICE
    with assms(2) have "selectedIds_of a = []"
      by (auto simp: selectedIds_of_def hasText_def split: option.splits)
    with scoreAnswer_single(1) [OF SINGLE_CHOICE, of a] show ?thesis
      by simp
  next
    case MULTIPLE_CHOICE
    with assms(2) have "selectedIds_of a = []"
      by (auto simp: selectedIds_of_def hasText_def split: option.splits)
    moreover from MULTIPLE_CHOICE assms(1) have "correctOptionIds_of q \<noteq> []"
      by (auto simp: typeInvariant_def correctCount_def correctOptionIds_of_def)
    ultimately show ?thesis
      using scoreAnswer_multiple(1) [OF MULTIPLE_CHOICE, of a] by simp
  next
    case TEXT
    with assms(2) have "\<not> truthy (textAnswer a)"
      by (auto simp: hasSelectedIds_def split: option.splits)
    with scoreAnswer_text(1) [OF TEXT, of a] show ?thesis
      by (auto simp: truthy_def)
  qed
qed

text \<open>
  C10. When an answer carries the payload of the other kind (selected option identifiers
  for a TEXT question, or a text for a SINGLE_CHOICE or MULTIPLE_CHOICE question) and the
  question satisfies the invariant of its type, the call returns, the answer is marked
  incorrect, and its verdict and reported correct answer are those of the same answer
  with no payload at all.
\<close>

theorem other_kind_marked_incorrect:
  assumes "quiz_findUnique d quizId = Some qz"
    and "\<forall>a \<in> set (answers inp).
           questionMap_of (question_findMany d quizId) (questionId a) \<noteq> None"
    and "i < length (answers inp)"
    and "questionMap_of (question_findMany d quizId) (questionId (answers inp ! i)) = Some q"
    and "typeInvariant q"
    and "(q_type q = TEXT \<and> hasSelectedIds (answers inp ! i)) \<or>
         (q_type q \<noteq> TEXT \<and> hasText (answers inp ! i))"
  shows "\<exists>sc. submitQuizAnswers d quizId inp = Inr sc \<and>
           \<not> r_isCorrect (results sc ! i) \<and>
           (r_isCorrect (results sc ! i), r_correctAnswer (results sc ! i)) =
             scoreAnswer q ((answers inp ! i)\<lparr>selectedOptionIds := None, textAnswer := None\<rparr>)"
proof -
  from submit_returns [OF assms(1,2,3)] obtain sc where
    sc: "submitQuizAnswers d quizId inp = Inr sc" by blast
  note r = result_at(1,2) [OF sc assms(3,4)]
  from r scoreAnswer_other_kind(1) [OF assms(5,6)] have "\<not> r_isCorrect (results sc ! i)"
    by simp
  moreover from r scoreAnswer_other_kind(2) [OF assms(5,6)]
  have "(r_isCorrect (results sc ! i), r_correctAnswer (results sc ! i)) =
          scoreAnswer q ((answers inp ! i)\<lparr>selectedOptionIds := None, textAnswer := None\<rparr>)"
    by (simp add: prod_eq_iff)
  ultimately show ?thesis
    using sc by blast
qed

theorem other_kind_marked_incorrect_witness:
  "\<exists>sc. submitQuizAnswers dbA quizA inputOtherKind = Inr sc \<and>
        typeInvariant qText \<and> q_type qText = TEXT \<and> hasSelectedIds (answers inputOtherKind ! 0) \<and>
        \<not> r_isCorrect (results sc ! 0) \<and>
        typeInvariant qSingle \<and> q_type qSingle = SINGLE_CHOICE \<and>
        hasText (answers inputOtherKind ! 1) \<and> \<not> r_isCorrect (results sc ! 1)"
proof -
  have q0: "questionMap_of (question_findMany dbA quizA) (questionId (answers inputOtherKind ! 0)) =
              Some qText"
    and q1: "questionMap_of (question_findMany dbA quizA) (questionId (answers inputOtherKind ! 1)) =
              Some qSingle"
    by (simp_all add: dbA_questions dbA_map inputOtherKind_def aTextByOption_def aSingleByText_def)
  have i0: "0 < length (answers inputOtherKind)" and i1: "1 < length (answers inputOtherKind)"
    by (simp_all add: inputOtherKind_def)
  have inv0: "typeInvariant qText" and inv1: "typeInvariant qSingle"
    by (simp_all add: typeInvariant_def correctCount_def qText_def qSingle_def)
  have t0: "q_type qText = TEXT" and t1: "q_type qSingle = SINGLE_CHOICE"
    by (simp_all add: qText_def qSingle_def)
  have k0: "hasSelectedIds (answers inputOtherKind ! 0)"
    by (simp add: inputOtherKind_def aTextByOption_def hasSelectedIds_def truthy_def)
  have k1: "hasText (answers inputOtherKind ! 1)"
    by (simp add: inputOtherKind_def aSingleByText_def hasText_def string_defs)
  have kind0: "(q_type qText = TEXT \<and> hasSelectedIds (answers inputOtherKind ! 0)) \<or>
               (q_type qText \<noteq> TEXT \<and> hasText (answers inputOtherKind ! 0))"
    using t0 k0 by simp
  have kind1: "(q_type qSingle = TEXT \<and> hasSelectedIds (answers inputOtherKind ! 1)) \<or>
               (q_type qSingle \<noteq> TEXT \<and> hasText (answers inputOtherKind ! 1))"
    using t1 k1 by simp
  from other_kind_marked_incorrect [OF dbA_quiz resolved_inputOtherKind i0 q0 inv0 kind0]
    other_kind_marked_incorrect [OF dbA_quiz resolved_inputOtherKind i1 q1 inv1 kind1]
    inv0 inv1 t0 t1 k0 k1
  show ?thesis
    by auto
qed


section \<open>The percentage\<close>

text \<open>
  The two operations of the percentage on 23 correct answers of 40 questions: the
  quotient is the double just below 0.575, and its product with 100 is the double just
  below 57.5.
\<close>

lemma fl_23_40: "fl (23 / 40) = 2589569785738035 / 2 ^ 52"
  by code_simp

lemma fl_23_40_times_100: "fl (2589569785738035 / 2 ^ 52 * 100) = 115 / 2 - 1 / 2 ^ 47"
  by code_simp

lemma percentage_1_3: "percentage_of 1 3 = 33 \<and> spec_percentage 1 3 = 33"
  by code_simp

lemma percentage_23_40: "percentage_of 23 40 = 57"
  by code_simp

lemma spec_percentage_23_40: "spec_percentage 23 40 = 58"
  by (simp add: spec_percentage_def round_half_away_def)

lemma digit_inj:
  assumes "n < 10" and "m < 10" and "''0123456789'' ! n = ''0123456789'' ! m"
  shows "n = m"
proof -
  have "distinct ''0123456789''" by simp
  from nth_eq_iff_index_eq [OF this, of n m] assms show ?thesis by simp
qed

lemma uuid_of_inj:
  assumes "n < 100" and "m < 100" and "uuid_of c n = uuid_of c m"
  shows "n = m"
proof -
  from assms(3) have "''0123456789'' ! (n div 10) = ''0123456789'' ! (m div 10)"
    and "''0123456789'' ! (n mod 10) = ''0123456789'' ! (m mod 10)"
    by (simp_all add: uuid_of_def)
  moreover from assms(1,2) have "n div 10 < 10" "m div 10 < 10" "n mod 10 < 10" "m mod 10 < 10"
    by simp_all
  ultimately have "n div 10 = m div 10" and "n mod 10 = m mod 10"
    by (auto intro: digit_inj)
  then show ?thesis
    by (metis div_mult_mod_eq)
qed

lemma dbC_quiz: "quiz_findUnique dbC quizC = Some \<lparr>quiz_id = quizC, title = ''Forty questions''\<rparr>"
  by (simp add: quiz_findUnique_def dbC_def)

lemma dbC_questions: "question_findMany dbC quizC = map qC [10..<50]"
  by (simp add: question_findMany_def dbC_def qC_def del: upt_rec_numeral)

lemma map_q_id_qC: "map q_id (map qC ns) = map (uuid_of CHR ''a'') ns"
  by (simp add: qC_def)

lemma dbC_distinct: "distinct (map q_id (map qC [10..<50]))"
proof -
  have "inj_on (uuid_of CHR ''a'') (set [10..<50])"
    by (auto intro!: inj_onI uuid_of_inj simp del: upt_rec_numeral)
  then show ?thesis
    unfolding map_q_id_qC by (simp add: distinct_map del: upt_rec_numeral)
qed

lemma dbC_resolved:
  assumes "10 \<le> n" and "n < 50"
  shows "questionMap_of (map qC [10..<50]) (questionId (aC n)) = Some (qC n)"
proof -
  from assms have "qC n \<in> set (map qC [10..<50])"
    by (simp del: upt_rec_numeral)
  from questionMap_of_distinct [OF dbC_distinct this] show ?thesis
    by (simp add: qC_def aC_def)
qed

lemma qC_aC_correct: "scoreAnswer (qC n) (aC n) = (True, Str ''Yes'')"
  by (simp add: scoreAnswer_def qC_def aC_def selectedIds_of_def correctOptionIds_of_def)

lemma schemaC: "submitAnswersSchema inputC"
  by (simp add: submitAnswersSchema_def inputC_def list_all_iff aC_def hasSelectedIds_def
      truthy_def del: upt_rec_numeral)

text \<open>
  C5, at a quiz of forty questions of which a submission answers twenty-three, each
  once and correctly. The call returns the total 40, the number of questions, and the
  score 23, the number of answers marked correct. The percentage it returns is 57; the
  exact value of \<open>100 \<times> 23 / 40\<close> is 57.5, and rounded with the half going away from
  zero it is 58.
\<close>

theorem percentage_of_23_of_40:
  "\<exists>sc. submitQuizAnswers dbC quizC inputC = Inr sc \<and>
        submitAnswersSchema inputC \<and> distinct (map questionId (answers inputC)) \<and>
        score sc = 23 \<and> total_n sc = 40 \<and> percentage sc = 57 \<and>
        spec_percentage (score sc) (total_n sc) = 58"
proof -
  have res: "\<forall>a \<in> set (answers inputC).
      questionMap_of (question_findMany dbC quizC) (questionId a) \<noteq> None"
    by (auto simp: inputC_def dbC_questions dbC_resolved simp del: upt_rec_numeral)
  have "0 < length (answers inputC)"
    by (simp add: inputC_def del: upt_rec_numeral)
  from submit_returns [OF dbC_quiz res this] obtain sc where
    sc: "submitQuizAnswers dbC quizC inputC = Inr sc" by blast
  note ok = submit_Inr [OF sc]
  have len: "length (results sc) = 23"
    using list_all2_lengthD [OF ok(7)] by (simp add: inputC_def del: upt_rec_numeral)
  have "r_isCorrect (results sc ! j)" if "j < 23" for j
  proof -
    from that have j: "j < length (answers inputC)" and a: "answers inputC ! j = aC (10 + j)"
      by (simp_all add: inputC_def del: upt_rec_numeral)
    from that have "questionMap_of (question_findMany dbC quizC) (questionId (answers inputC ! j)) =
        Some (qC (10 + j))"
      by (simp add: a dbC_questions dbC_resolved del: upt_rec_numeral)
    from result_at(1) [OF sc j this] show ?thesis
      by (simp add: a qC_aC_correct)
  qed
  with len have "filter r_isCorrect (results sc) = results sc"
    by (auto simp: filter_id_conv in_set_conv_nth)
  with ok(4) len have score: "score sc = 23"
    by simp
  from ok(5) have total: "total_n sc = 40"
    by (simp add: dbC_questions del: upt_rec_numeral)
  from ok(6) score total have "percentage sc = 57"
    by (simp add: percentage_23_40)
  moreover have "distinct (map questionId (answers inputC))"
  proof -
    have "map questionId (answers inputC) = map (uuid_of CHR ''a'') [10..<33]"
      by (simp add: inputC_def aC_def del: upt_rec_numeral)
    moreover have "inj_on (uuid_of CHR ''a'') (set [10..<33])"
      by (auto intro!: inj_onI uuid_of_inj simp del: upt_rec_numeral)
    ultimately show ?thesis
      by (simp add: distinct_map del: upt_rec_numeral)
  qed
  ultimately show ?thesis
    using sc score total schemaC spec_percentage_23_40 by simp
qed


end
